theory Spec2Isabelle
  imports Main "HOL-Library.Sublist"
begin

section \<open>JavaScript string primitives\<close>

text \<open>
  A JavaScript string is modelled as a \<^typ>\<open>string\<close>, one \<^typ>\<open>char\<close> per code unit.
  The model covers ASCII text: \<open>toLowerCase\<close> folds \<open>A\<close>..\<open>Z\<close> only, and the white space
  of \<open>trim()\<close> and of the regular expression classes \<open>\s\<close> and \<open>\S\<close> is tab, line feed,
  vertical tab, form feed, carriage return and space. Code units beyond ASCII are
  caseless and not white space here.
\<close>

definition isSpace :: "char \<Rightarrow> bool" where
  "isSpace c = (c \<in> set [CHR 0x09, CHR 0x0A, CHR 0x0B, CHR 0x0C, CHR 0x0D, CHR 0x20])"

definition lowerChar :: "char \<Rightarrow> char" where
  "lowerChar c =
     (case map_of (zip ''ABCDEFGHIJKLMNOPQRSTUVWXYZ'' ''abcdefghijklmnopqrstuvwxyz'') c of
        Some d \<Rightarrow> d
      | None \<Rightarrow> c)"

definition toLowerCase :: "string \<Rightarrow> string" where
  "toLowerCase s = map lowerChar s"

definition trim :: "string \<Rightarrow> string" where
  "trim s = rev (dropWhile isSpace (rev (dropWhile isSpace s)))"

text \<open>\<open>s.includes(p)\<close>: \<open>p\<close> occurs in \<open>s\<close> as a contiguous run of code units.\<close>

fun str_includes :: "string \<Rightarrow> string \<Rightarrow> bool" where
  "str_includes [] p = (p = [])"
| "str_includes (c # s) p = (prefix p (c # s) \<or> str_includes s p)"

text \<open>\<open>s.split(sep)\<close> for a one-character separator: never empty, \<open>"".split(sep)\<close> is \<open>[""]\<close>.\<close>

fun split :: "char \<Rightarrow> string \<Rightarrow> string list" where
  "split sep [] = [[]]"
| "split sep (c # s) =
     (if c = sep then [] # split sep s
      else (case split sep s of
              [] \<Rightarrow> [[c]]
            | piece # pieces \<Rightarrow> (c # piece) # pieces))"

text \<open>\<open>xs.join(sep)\<close>.\<close>

fun join :: "string \<Rightarrow> string list \<Rightarrow> string" where
  "join sep [] = []"
| "join sep [x] = x"
| "join sep (x # y # ys) = x @ sep @ join sep (y # ys)"

section \<open>Cell parser\<close>

record classObj =
  course :: string
  room :: string
  type :: string

record dayClasses =
  aDayClasses :: "classObj list"
  bDayClasses :: "classObj list"

text \<open>
  \<open>detailsLine.match(/Room:(\S+)/)\<close>: the leftmost position where \<open>Room:\<close> is followed by at
  least one non-space code unit; the group is the longest run of non-space code units
  there. \<open>None\<close> is the \<open>null\<close> of a failed match.
\<close>

fun roomMatch :: "string \<Rightarrow> string option" where
  "roomMatch [] = None"
| "roomMatch (c # s) =
     (if prefix ''Room:'' (c # s) \<and> takeWhile (\<lambda>x. \<not> isSpace x) (drop 5 (c # s)) \<noteq> []
      then Some (takeWhile (\<lambda>x. \<not> isSpace x) (drop 5 (c # s)))
      else roomMatch s)"

text \<open>
  \<open>detailsLine.match(/(FY|S1|S2|Q1|Q2|Q3|Q4)/)\<close>: the leftmost position where one of the
  alternatives stands, the alternatives tried in the order written.
\<close>

definition termTypes :: "string list" where
  "termTypes = [''FY'', ''S1'', ''S2'', ''Q1'', ''Q2'', ''Q3'', ''Q4'']"

fun typeMatch :: "string \<Rightarrow> string option" where
  "typeMatch [] = None"
| "typeMatch (c # s) =
     (case find (\<lambda>t. prefix t (c # s)) termTypes of
        Some t \<Rightarrow> Some t
      | None \<Rightarrow> typeMatch s)"

text \<open>
  \<open>detailsLine.match(/Days:\s*([AB])/)\<close>: the leftmost position where \<open>Days:\<close>, then any
  white space, then \<open>A\<close> or \<open>B\<close> stands. Neither letter is white space, so the greedy
  \<open>\s*\<close> never has to give a code unit back.
\<close>

fun daysMatch :: "string \<Rightarrow> char option" where
  "daysMatch [] = None"
| "daysMatch (c # s) =
     (if prefix ''Days:'' (c # s) then
        (case dropWhile isSpace (drop 5 (c # s)) of
           d # _ \<Rightarrow> if d = CHR ''A'' \<or> d = CHR ''B'' then Some d else daysMatch s
         | [] \<Rightarrow> daysMatch s)
      else daysMatch s)"

definition hasDetails :: "string \<Rightarrow> bool" where
  "hasDetails l = (str_includes l ''Room:'' \<or> str_includes l ''Days:'')"

text \<open>The object built from a course line and its details line.\<close>

definition detailsClass :: "string \<Rightarrow> string \<Rightarrow> classObj" where
  "detailsClass line detailsLine =
     \<lparr> course = trim line,
       room = (case roomMatch detailsLine of Some r \<Rightarrow> r | None \<Rightarrow> []),
       type = (case typeMatch detailsLine of Some t \<Rightarrow> t | None \<Rightarrow> ''FY'') \<rparr>"

text \<open>
  The \<open>while (i < lines.length)\<close> loop of \<open>parsePeriodCell\<close>, on the lines from index \<open>i\<close>
  on, with the two arrays it pushes to.
\<close>

fun parseLines :: "string list \<Rightarrow> classObj list \<Rightarrow> classObj list \<Rightarrow> dayClasses" where
  "parseLines [] aDay bDay = \<lparr> aDayClasses = aDay, bDayClasses = bDay \<rparr>"
| "parseLines [line] aDay bDay =
     (if trim line \<noteq> []
      then parseLines [] (aDay @ [\<lparr> course = trim line, room = [], type = ''FY'' \<rparr>])
                         (bDay @ [\<lparr> course = trim line, room = [], type = ''FY'' \<rparr>])
      else parseLines [] aDay bDay)"
| "parseLines (line # detailsLine # rest) aDay bDay =
     (if hasDetails detailsLine then
        (if daysMatch detailsLine = Some CHR ''A''
         then parseLines rest (aDay @ [detailsClass line detailsLine]) bDay
         else if daysMatch detailsLine = Some CHR ''B''
         then parseLines rest aDay (bDay @ [detailsClass line detailsLine])
         else parseLines rest (aDay @ [detailsClass line detailsLine])
                              (bDay @ [detailsClass line detailsLine]))
      else if trim line \<noteq> []
      then parseLines (detailsLine # rest)
             (aDay @ [\<lparr> course = trim line, room = [], type = ''FY'' \<rparr>])
             (bDay @ [\<lparr> course = trim line, room = [], type = ''FY'' \<rparr>])
      else parseLines (detailsLine # rest) aDay bDay)"

definition parsePeriodCell :: "string \<Rightarrow> dayClasses" where
  "parsePeriodCell cellValue =
     (if trim cellValue = [] then \<lparr> aDayClasses = [], bDayClasses = [] \<rparr>
      else parseLines (split CHR 0x0A cellValue) [] [])"

text \<open>\<open>formatClassForCsv\<close>: only the first class of the array is formatted.\<close>

definition formatClassForCsv :: "classObj list \<Rightarrow> string" where
  "formatClassForCsv classes =
     (case classes of
        [] \<Rightarrow> []
      | firstClass # _ \<Rightarrow>
          if room firstClass \<noteq> []
          then course firstClass @ '' (Room: '' @ room firstClass @ '')''
          else course firstClass)"

section \<open>Column mapper\<close>

text \<open>
  \<open>lowerMap\<close> is an object literal \<open>{}\<close> used as a dictionary. Its own properties are a map
  from keys to header strings. Two keys that a lower-cased, trimmed name can spell are
  special in JavaScript: \<open>__proto__\<close> (assigning a string to it stores nothing, reading it
  gives the prototype object) and \<open>constructor\<close> (read from the prototype unless an own
  property shadows it). A read of either gives an object, which is truthy and is returned
  as it is: \<open>Inherited\<close>. \<open>Null\<close> is the \<open>null\<close> returned when no name matches.
\<close>

datatype column = Null | Header string | Inherited string

definition headerKey :: "string \<Rightarrow> string" where
  "headerKey h = trim (toLowerCase h)"

definition lowerMapOf :: "string list \<Rightarrow> (string \<rightharpoonup> string)" where
  "lowerMapOf hs =
     fold (\<lambda>h m. if headerKey h = ''__proto__'' then m else m(headerKey h \<mapsto> h)) hs Map.empty"

fun findLoop :: "(string \<rightharpoonup> string) \<Rightarrow> string list \<Rightarrow> column" where
  "findLoop lowerMap [] = Null"
| "findLoop lowerMap (name # names) =
     (case lowerMap (headerKey name) of
        Some match \<Rightarrow> if match \<noteq> [] then Header match else findLoop lowerMap names
      | None \<Rightarrow>
          if headerKey name = ''__proto__'' \<or> headerKey name = ''constructor''
          then Inherited (headerKey name)
          else findLoop lowerMap names)"

definition findColumn :: "string list \<Rightarrow> string list \<Rightarrow> column" where
  "findColumn hs possibleNames = findLoop (lowerMapOf hs) possibleNames"

text \<open>\<open>findColumnName\<close> has the same body as \<open>findColumn\<close>.\<close>

definition findColumnName :: "string list \<Rightarrow> string list \<Rightarrow> column" where
  "findColumnName hs possibleNames = findLoop (lowerMapOf hs) possibleNames"

section \<open>Edit distance\<close>

text \<open>\<open>dp[i][j] = v\<close> on the table of rows.\<close>

definition setCell :: "nat list list \<Rightarrow> nat \<Rightarrow> nat \<Rightarrow> nat \<Rightarrow> nat list list" where
  "setCell dp i j v = dp[i := (dp ! i)[j := v]]"

definition levCell :: "string \<Rightarrow> string \<Rightarrow> nat \<Rightarrow> nat \<Rightarrow> nat list list \<Rightarrow> nat list list" where
  "levCell a b i j dp =
     setCell dp i j
       (min (min (dp ! (i - 1) ! j + 1) (dp ! i ! (j - 1) + 1))
            (dp ! (i - 1) ! (j - 1) + (if a ! (i - 1) = b ! (j - 1) then 0 else 1)))"

definition levenshteinDistance :: "string \<Rightarrow> string \<Rightarrow> nat" where
  "levenshteinDistance a b =
     (let aLen = length a;
          bLen = length b;
          dp0 = replicate (aLen + 1) (replicate (bLen + 1) 0);
          dp1 = fold (\<lambda>i dp. setCell dp i 0 i) [0..<aLen + 1] dp0;
          dp2 = fold (\<lambda>j dp. setCell dp 0 j j) [0..<bLen + 1] dp1;
          dp3 = fold (\<lambda>i dp. fold (levCell a b i) [1..<bLen + 1] dp) [1..<aLen + 1] dp2
      in dp3 ! aLen ! bLen)"

section \<open>CSV fields\<close>

definition escapeCsv :: "string \<Rightarrow> string" where
  "escapeCsv str =
     (if str_includes str '','' \<or> str_includes str [CHR 0x22] \<or> str_includes str [CHR 0x0A]
      then [CHR 0x22] @ concat (map (\<lambda>c. if c = CHR 0x22 then [CHR 0x22, CHR 0x22] else [c]) str)
           @ [CHR 0x22]
      else str)"

text \<open>
  The \<open>for\<close> loop of \<open>parseCSVLine\<close> on the code units from index \<open>i\<close> on, with \<open>result\<close>,
  \<open>current\<close> and \<open>inQuotes\<close>; the \<open>i++\<close> of the doubled quote skips one more code unit.
\<close>

fun parseChars :: "string \<Rightarrow> string list \<Rightarrow> string \<Rightarrow> bool \<Rightarrow> string list" where
  "parseChars [] result current inQuotes = result @ [current]"
| "parseChars (ch # rest) result current True =
     (if ch = CHR 0x22 then
        (case rest of
           n # rest' \<Rightarrow>
             if n = CHR 0x22 then parseChars rest' result (current @ [CHR 0x22]) True
             else parseChars rest result current False
         | [] \<Rightarrow> parseChars rest result current False)
      else parseChars rest result (current @ [ch]) True)"
| "parseChars (ch # rest) result current False =
     (if ch = CHR 0x22 then parseChars rest result current True
      else if ch = CHR '','' then parseChars rest (result @ [current]) [] False
      else parseChars rest result (current @ [ch]) False)"

definition parseCSVLine :: "string \<Rightarrow> string list" where
  "parseCSVLine line = parseChars line [] [] False"

section \<open>Schedule normalizer\<close>

text \<open>
  A row of \<open>sheet_to_json\<close> is an object from header to cell; it is modelled by its entries
  in \<open>Object.keys\<close> order, each cell already the text \<open>String(v || '')\<close> yields.
  A header the row lacks reads as \<open>undefined\<close>, so as the empty string. The array of
  rows, \<open>data\<close> in the source, is \<open>sheetData\<close> here; reading the workbook is outside
  the model.
\<close>

type_synonym row = "(string \<times> string) list"

definition cellText :: "row \<Rightarrow> string \<Rightarrow> string" where
  "cellText r h = (case map_of r h of Some v \<Rightarrow> v | None \<Rightarrow> [])"

text \<open>
  A JavaScript \<open>Set\<close> keeps its elements in insertion order, each once: a list without
  repetitions. \<open>jsSet xs\<close> is \<open>new Set(xs)\<close>, and \<open>x \<in> set s\<close> is \<open>s.has(x)\<close>.
\<close>

definition setAdd :: "'a \<Rightarrow> 'a list \<Rightarrow> 'a list" where
  "setAdd x s = (if x \<in> set s then s else s @ [x])"

definition jsSet :: "'a list \<Rightarrow> 'a list" where
  "jsSet xs = fold setAdd xs []"

definition nonTeachingSetOf :: "string \<Rightarrow> string list" where
  "nonTeachingSetOf nonTeachingLabelsStr =
     jsSet (map (\<lambda>s. toLowerCase (trim s)) (split CHR '','' nonTeachingLabelsStr))"

record teacherRow =
  teacher :: string
  dept :: string
  data :: "string list"

record parseResult =
  headers :: "string list"
  teachers :: "teacherRow list"
  periodCols :: "string list"

definition teacherNames :: "string list" where
  "teacherNames = [''Teacher Name'', ''Teacher'', ''Name'', ''Staff'', ''Staff Name'', ''Instructor'']"

definition deptNames :: "string list" where
  "deptNames = [''Department'', ''Dept'', ''Subject'', ''Subject Area'']"

text \<open>
  \<open>col ? String(row[col] || '').trim() : ''\<close>. An inherited object would be truthy and be
  turned into its text as the property key; the candidate names of the normalizer never
  produce one (lemma \<open>findLoop_no_inherited\<close> below).
\<close>

definition columnText :: "column \<Rightarrow> row \<Rightarrow> string" where
  "columnText col r =
     (case col of
        Null \<Rightarrow> []
      | Header h \<Rightarrow> trim (cellText r h)
      | Inherited k \<Rightarrow>
          trim (cellText r (if k = ''constructor'' then ''function Object() { [native code] }''
                            else ''[object Object]'')))"

text \<open>The two cells pushed for one period column, from the trimmed cell text.\<close>

definition periodCells :: "string list \<Rightarrow> string \<Rightarrow> string list" where
  "periodCells nonTeachingSet cellValue =
     (if toLowerCase cellValue \<in> set nonTeachingSet then [''Prep'', ''Prep'']
      else
        [if formatClassForCsv (aDayClasses (parsePeriodCell cellValue)) \<noteq> []
         then formatClassForCsv (aDayClasses (parsePeriodCell cellValue)) else ''Prep'',
         if formatClassForCsv (bDayClasses (parsePeriodCell cellValue)) \<noteq> []
         then formatClassForCsv (bDayClasses (parsePeriodCell cellValue)) else ''Prep''])"

definition outputRowOf :: "string list \<Rightarrow> string list \<Rightarrow> row \<Rightarrow> string \<Rightarrow> string \<Rightarrow> string list" where
  "outputRowOf nonTeachingSet periodColNames r d teacherName =
     fold (\<lambda>periodCol outputRow.
             outputRow @ periodCells nonTeachingSet (trim (cellText r periodCol)))
          periodColNames [d, teacherName]"

text \<open>The \<open>for (const row of data)\<close> loop: a row with an empty teacher name is passed over.\<close>

fun buildTeachers :: "column \<Rightarrow> column \<Rightarrow> string list \<Rightarrow> string list \<Rightarrow> row list \<Rightarrow> teacherRow list" where
  "buildTeachers teacherColName deptColName nonTeachingSet periodColNames [] = []"
| "buildTeachers teacherColName deptColName nonTeachingSet periodColNames (r # rs) =
     (if columnText teacherColName r = []
      then buildTeachers teacherColName deptColName nonTeachingSet periodColNames rs
      else \<lparr> teacher = columnText teacherColName r,
             dept = columnText deptColName r,
             data = outputRowOf nonTeachingSet periodColNames r
                      (columnText deptColName r) (columnText teacherColName r) \<rparr>
           # buildTeachers teacherColName deptColName nonTeachingSet periodColNames rs)"

definition outputHeadersOf :: "string list \<Rightarrow> string list" where
  "outputHeadersOf periodColNames =
     fold (\<lambda>periodCol outputHeaders.
             outputHeaders @ [periodCol @ '' A Day'', periodCol @ '' B Day''])
          periodColNames [''Department'', ''Teacher'']"

definition parseExcelSchedule :: "row list \<Rightarrow> string \<Rightarrow> parseResult" where
  "parseExcelSchedule sheetData nonTeachingLabelsStr =
     (case sheetData of
        [] \<Rightarrow> \<lparr> headers = [''Department'', ''Teacher''], teachers = [], periodCols = [] \<rparr>
      | first # _ \<Rightarrow>
          \<lparr> headers =
              outputHeadersOf
                (filter (\<lambda>h. str_includes (toLowerCase h) ''period'') (map fst first)),
            teachers =
              buildTeachers (findColumnName (map fst first) teacherNames)
                (findColumnName (map fst first) deptNames)
                (nonTeachingSetOf nonTeachingLabelsStr)
                (filter (\<lambda>h. str_includes (toLowerCase h) ''period'') (map fst first))
                sheetData,
            periodCols = filter (\<lambda>h. str_includes (toLowerCase h) ''period'') (map fst first) \<rparr>)"

section \<open>Validator\<close>

record issue =
  severity :: string
  message :: string

text \<open>The body of the loop over the teachers, one definition per check.\<close>

definition missingNameIssues :: "teacherRow \<Rightarrow> issue list" where
  "missingNameIssues t =
     (if teacher t = [] \<or> trim (teacher t) = []
      then [\<lparr> severity = ''error'', message = ''Missing teacher name in one row'' \<rparr>]
      else [])"

definition duplicateIssues :: "string list \<Rightarrow> teacherRow \<Rightarrow> issue list" where
  "duplicateIssues seenTeachers t =
     (if toLowerCase (teacher t) \<in> set seenTeachers
      then [\<lparr> severity = ''warning'', message = ''Duplicate teacher: '' @ teacher t \<rparr>]
      else [])"

definition allPrepIssues :: "teacherRow \<Rightarrow> issue list" where
  "allPrepIssues t =
     (if \<not> str_includes (toLowerCase (join ''|'' (data t))) ''(room:''
         \<and> list_all (\<lambda>c. c = ''Prep'' \<or> c = []) (drop 2 (data t))
      then [\<lparr> severity = ''warning'', message = ''All-prep schedule: '' @ teacher t \<rparr>]
      else [])"

definition courseCells :: "teacherRow \<Rightarrow> string list" where
  "courseCells t =
     filter (\<lambda>cell. cell \<noteq> [] \<and> \<not> str_includes cell ''(Room:'' \<and> cell \<noteq> ''Prep'')
       (drop 2 (data t))"

fun validateRows :: "teacherRow list \<Rightarrow> issue list \<Rightarrow> string list \<Rightarrow> string list
    \<Rightarrow> issue list \<times> string list \<times> string list" where
  "validateRows [] issues seenTeachers allCoursesStr = (issues, seenTeachers, allCoursesStr)"
| "validateRows (t # ts) issues seenTeachers allCoursesStr =
     validateRows ts
       (issues @ missingNameIssues t @ duplicateIssues seenTeachers t @ allPrepIssues t)
       (setAdd (toLowerCase (teacher t)) seenTeachers)
       (allCoursesStr @ courseCells t)"

text \<open>The inner loop over the labels, left at the first warning (\<open>break\<close>).\<close>

fun typoIssues :: "string \<Rightarrow> string list \<Rightarrow> issue list" where
  "typoIssues c [] = []"
| "typoIssues c (label # labels) =
     (if levenshteinDistance (toLowerCase c) label > 0
         \<and> levenshteinDistance (toLowerCase c) label \<le> 2
         \<and> \<not> str_includes (toLowerCase c) ''(room:''
      then [\<lparr> severity = ''warning'',
              message = ''Possible typo: '' @ [CHR 0x22] @ c @ [CHR 0x22] @ '' (similar to ''
                        @ [CHR 0x22] @ label @ [CHR 0x22] @ '')'' \<rparr>]
      else typoIssues c labels)"

definition validateSchedule :: "teacherRow list \<Rightarrow> string \<Rightarrow> issue list" where
  "validateSchedule ts nonTeachingLabelsStr =
     (case validateRows ts [] [] [] of
        (issues, seenTeachers, allCoursesStr) \<Rightarrow>
          issues @ concat (map (\<lambda>c. typoIssues c (nonTeachingSetOf nonTeachingLabelsStr))
                             (jsSet allCoursesStr)))"

section \<open>Notions for the statements\<close>

text \<open>
  What the theorems below are stated with: the notions of the specification in its own
  words, the invariants of the loops, and example inputs.
\<close>

text \<open>
  The issues the loop over the teachers pushes, as a function of the set of names seen
  before the first of them (lemma \<open>validateRows_eq\<close> relates it to the loop).
\<close>

fun rowIssues :: "string list \<Rightarrow> teacherRow list \<Rightarrow> issue list" where
  "rowIssues seenTeachers [] = []"
| "rowIssues seenTeachers (t # ts) =
     missingNameIssues t @ duplicateIssues seenTeachers t @ allPrepIssues t
     @ rowIssues (setAdd (toLowerCase (teacher t)) seenTeachers) ts"

text \<open>Example inputs: the cell and the row of the specification's end-to-end example.\<close>

definition exampleCell :: string where
  "exampleCell = ''Algebra I'' @ [CHR 0x0A] @ ''      FY  Room:204  Days:A'' @ [CHR 0x0A]
                 @ ''Geometry'' @ [CHR 0x0A] @ ''      FY  Room:204  Days:B''"

definition exampleSheet :: "row list" where
  "exampleSheet =
     [[(''Teacher'', ''Lee, Anna''), (''Department'', ''Math''), (''Period 1'', exampleCell),
       (''Period 2'', '' Lunch '')],
      [(''Teacher'', ''   ''), (''Department'', ''Art''), (''Period 1'', ''Drawing''),
       (''Period 2'', ''Prep'')],
      [(''Teacher'', ''LEE, ANNA''), (''Department'', ''Math''), (''Period 1'', ''Prep''),
       (''Period 2'', ''Lunhc'')]]"

text \<open>The three kinds of warning, told apart by the fixed start of their messages.\<close>

definition isDuplicateWarning :: "issue \<Rightarrow> bool" where
  "isDuplicateWarning i = prefix ''Duplicate teacher: '' (message i)"

definition isAllPrepWarning :: "issue \<Rightarrow> bool" where
  "isAllPrepWarning i = prefix ''All-prep schedule: '' (message i)"

definition isTypoWarning :: "issue \<Rightarrow> bool" where
  "isTypoWarning i = prefix ''Possible typo: '' (message i)"

text \<open>
  The rows whose case-folded name already stands in an earlier row: the second and every
  further occurrence of a name, in the order of the rows.
\<close>

definition laterOccurrences :: "teacherRow list \<Rightarrow> teacherRow list" where
  "laterOccurrences ts =
     map (\<lambda>i. ts ! i)
       (filter (\<lambda>i. \<exists>j\<in>set [0..<i].
                  toLowerCase (teacher (ts ! j)) = toLowerCase (teacher (ts ! i)))
          [0..<length ts])"

text \<open>
  An all-prep row as the validator decides it: every period cell is \<open>Prep\<close> or empty, and
  no entry of the row, the department and the name included, holds \<open>(room:\<close> in any
  letter case.
\<close>

definition allPrepRow :: "teacherRow \<Rightarrow> bool" where
  "allPrepRow t =
     (list_all (\<lambda>c. c = ''Prep'' \<or> c = []) (drop 2 (data t))
      \<and> list_all (\<lambda>c. \<not> str_includes (toLowerCase c) ''(room:'') (data t))"

text \<open>
  An all-prep row in the words of the specification: every period cell is \<open>Prep\<close> or
  empty, and no cell holds the substring \<open>(Room:\<close>.
\<close>

definition claimedAllPrepRow :: "teacherRow \<Rightarrow> bool" where
  "claimedAllPrepRow t =
     (list_all (\<lambda>c. c = ''Prep'' \<or> c = []) (drop 2 (data t))
      \<and> list_all (\<lambda>c. \<not> str_includes c ''(Room:'') (data t))"

text \<open>A label is within typo distance of a course: the case-folded distance is 1 or 2.\<close>

definition withinTypoDistance :: "string \<Rightarrow> string \<Rightarrow> bool" where
  "withinTypoDistance c label =
     (1 \<le> levenshteinDistance (toLowerCase c) label
      \<and> levenshteinDistance (toLowerCase c) label \<le> 2)"

definition typoWarning :: "string \<Rightarrow> string \<Rightarrow> issue" where
  "typoWarning c label =
     \<lparr> severity = ''warning'',
       message = ''Possible typo: '' @ [CHR 0x22] @ c @ [CHR 0x22] @ '' (similar to ''
                 @ [CHR 0x22] @ label @ [CHR 0x22] @ '')'' \<rparr>"

text \<open>Example rows for the validator.\<close>

definition gymRow :: teacherRow where
  "gymRow = \<lparr> teacher = ''Smith, Jane'', dept = ''Gym (room: 12)'',
              data = [''Gym (room: 12)'', ''Smith, Jane'', ''Prep'', ''Prep''] \<rparr>"

definition roomRow :: teacherRow where
  "roomRow = \<lparr> teacher = ''Smith, Jane'', dept = ''Math'',
               data = [''Math'', ''Smith, Jane'', ''(room:'', ''Algebra I (Room: 204)''] \<rparr>"

definition blankRow :: teacherRow where
  "blankRow = \<lparr> teacher = ''Smith, Jane'', dept = ''Math'',
                data = [''Math'', ''Smith, Jane'', [], ''Algebra I (Room: 204)''] \<rparr>"

definition janeRows :: "teacherRow list" where
  "janeRows =
     [\<lparr> teacher = ''Smith, Jane'', dept = ''Math'',
         data = [''Math'', ''Smith, Jane'', ''Biology (Room: 101)'', ''Prep''] \<rparr>,
      \<lparr> teacher = ''smith, jane'', dept = ''Art'',
         data = [''Art'', ''smith, jane'', ''Drawing'', ''Prep''] \<rparr>]"

definition exampleTeachers :: "teacherRow list" where
  "exampleTeachers =
     [\<lparr> teacher = ''Smith, Jane'', dept = ''Math'',
         data = [''Math'', ''Smith, Jane'', ''Biology (Room: 101)'', ''Prep'', ''Prep'', ''Prep''] \<rparr>,
      \<lparr> teacher = ''Doe, John'', dept = ''Art'',
         data = [''Art'', ''Doe, John'', ''Prep'', [], ''Prep'', ''Prep''] \<rparr>,
      \<lparr> teacher = ''Lee, Anna'', dept = ''Math'',
         data = [''Math'', ''Lee, Anna'', ''math'', ''perp'', ''xprep'', ''Lunch''] \<rparr>,
      \<lparr> teacher = ''Roe, Max'', dept = ''Math'',
         data = [''Math'', ''Roe, Max'', ''perp'', ''Perp'', ''Prep'', ''Prep''] \<rparr>]"

text \<open>
  The entries of a cell in the words of the specification, in source line order: a line
  whose next line is a details line is a course with that line's details and day flag, and
  both lines are consumed; any other line that is not blank is a course on its own, with
  no day flag; a blank line on its own gives nothing.
\<close>

fun cellEntries :: "string list \<Rightarrow> (classObj \<times> char option) list" where
  "cellEntries [] = []"
| "cellEntries [line] =
     (if trim line = [] then []
      else [(\<lparr> course = trim line, room = [], type = ''FY'' \<rparr>, None)])"
| "cellEntries (line # next # rest) =
     (if hasDetails next
      then (detailsClass line next, daysMatch next) # cellEntries rest
      else (if trim line = [] then []
            else [(\<lparr> course = trim line, room = [], type = ''FY'' \<rparr>, None)])
           @ cellEntries (next # rest))"

text \<open>The cell of a day in the words of the specification, and as the code makes it.\<close>

definition claimedDayCell :: "classObj list \<Rightarrow> string" where
  "claimedDayCell classes =
     (case classes of
        [] \<Rightarrow> ''Prep''
      | c # _ \<Rightarrow> if room c \<noteq> [] then course c @ '' (Room: '' @ room c @ '')'' else course c)"

definition dayCell :: "classObj list \<Rightarrow> string" where
  "dayCell classes =
     (case classes of
        [] \<Rightarrow> ''Prep''
      | c # _ \<Rightarrow>
          if room c \<noteq> [] then course c @ '' (Room: '' @ room c @ '')''
          else if course c \<noteq> [] then course c
          else ''Prep'')"

definition blankCourseCell :: string where
  "blankCourseCell = ''Art'' @ [CHR 0x0A] @ ''Days:A'' @ [CHR 0x0A] @ [CHR 0x0A] @ ''Days:B''"

text \<open>
  The white-space separated tokens of a line, and the term type in the words of the
  specification: the token of the line that is one of the seven term types, \<open>FY\<close> when
  no token is.
\<close>

fun tokensFrom :: "string \<Rightarrow> string \<Rightarrow> string list" where
  "tokensFrom current [] = (if current = [] then [] else [current])"
| "tokensFrom current (c # s) =
     (if isSpace c then (if current = [] then [] else [current]) @ tokensFrom [] s
      else tokensFrom (current @ [c]) s)"

definition tokens :: "string \<Rightarrow> string list" where
  "tokens s = tokensFrom [] s"

definition claimedTermType :: "string \<Rightarrow> string" where
  "claimedTermType detailsLine =
     (case find (\<lambda>w. w \<in> set termTypes) (tokens detailsLine) of
        Some t \<Rightarrow> t
      | None \<Rightarrow> ''FY'')"

text \<open>
  The last header with a given key, and a candidate that matches: the last header with
  the candidate's key is there and is not the empty string.
\<close>

definition lastHeader :: "string list \<Rightarrow> string \<Rightarrow> string option" where
  "lastHeader hs k = find (\<lambda>h. headerKey h = k) (rev hs)"

definition matchesHeader :: "string list \<Rightarrow> string \<Rightarrow> bool" where
  "matchesHeader hs name =
     (case lastHeader hs (headerKey name) of Some h \<Rightarrow> h \<noteq> [] | None \<Rightarrow> False)"

text \<open>
  The edit distance in the words of the specification, as the classic recurrence on the
  lengths \<open>i\<close> and \<open>j\<close> of the prefixes of \<open>a\<close> and \<open>b\<close>: deleting, inserting and
  substituting one character cost one each.
\<close>

fun editRecurrence :: "string \<Rightarrow> string \<Rightarrow> nat \<Rightarrow> nat \<Rightarrow> nat" where
  "editRecurrence a b 0 j = j"
| "editRecurrence a b (Suc i) 0 = Suc i"
| "editRecurrence a b (Suc i) (Suc j) =
     min (min (editRecurrence a b i (Suc j) + 1) (editRecurrence a b (Suc i) j + 1))
         (editRecurrence a b i j + (if a ! i = b ! j then 0 else 1))"

text \<open>
  The table has its full size, and holds the recurrence's value in the first row, the
  first column, every row before \<open>k\<close> and the first \<open>m\<close> cells of row \<open>k\<close>.
\<close>

definition filled :: "string \<Rightarrow> string \<Rightarrow> nat list list \<Rightarrow> nat \<Rightarrow> nat \<Rightarrow> bool" where
  "filled a b dp k m =
     (length dp = length a + 1
      \<and> (\<forall>i \<le> length a. length (dp ! i) = length b + 1)
      \<and> (\<forall>i \<le> length a. \<forall>j \<le> length b.
            (i = 0 \<or> j = 0 \<or> i < k \<or> (i = k \<and> j < m)) \<longrightarrow> dp ! i ! j = editRecurrence a b i j))"

text \<open>
  The edit distance as the glossary has it. \<open>editsTo n xs ys\<close>: \<open>ys\<close> is made from \<open>xs\<close>
  by going through it once and keeping, substituting, deleting or inserting single
  characters, \<open>n\<close> of them substituted, deleted or inserted. \<open>editDistance\<close> is the
  textbook recursion for the least such \<open>n\<close>.
\<close>

inductive editsTo :: "nat \<Rightarrow> string \<Rightarrow> string \<Rightarrow> bool" where
  done_edits: "editsTo 0 [] []"
| keep_or_substitute: "editsTo n xs ys \<Longrightarrow> editsTo (n + (if x = y then 0 else 1)) (x # xs) (y # ys)"
| delete_char: "editsTo n xs ys \<Longrightarrow> editsTo (Suc n) (x # xs) ys"
| insert_char: "editsTo n xs ys \<Longrightarrow> editsTo (Suc n) xs (y # ys)"

fun editDistance :: "string \<Rightarrow> string \<Rightarrow> nat" where
  "editDistance [] ys = length ys"
| "editDistance (x # xs) [] = Suc (length xs)"
| "editDistance (x # xs) (y # ys) =
     min (min (editDistance xs (y # ys) + 1) (editDistance (x # xs) ys + 1))
         (editDistance xs ys + (if x = y then 0 else 1))"


section \<open>CSV serializer: escaping and its round trip\<close>

lemma str_includes_single: "str_includes s [c] = (c \<in> set s)"
  by (induction s) auto

lemma parseChars_quoted:
  "parseChars (concat (map (\<lambda>c. if c = CHR 0x22 then [CHR 0x22, CHR 0x22] else [c]) s) @ [CHR 0x22])
     result current True = result @ [current @ s]"
  by (induction s arbitrary: current) auto

lemma parseChars_bare:
  "CHR 0x22 \<notin> set s \<Longrightarrow> CHR '','' \<notin> set s \<Longrightarrow>
   parseChars s result current False = result @ [current @ s]"
  by (induction s arbitrary: current) auto

text \<open>
  Claim C6. \<open>escapeCsv\<close> wraps a field in double quotes, doubling every double quote in
  it, exactly when the field holds a comma, a double quote or a line feed, and returns it
  unchanged otherwise; and the line parser \<open>parseCSVLine\<close> reads the escaped field back as
  the one original field. The round trip holds for every field (a line feed inside the
  quotes is kept by the parser too), so in particular for every field without one.
\<close>

theorem escapeCsv_roundtrip:
  "escapeCsv s =
     (if CHR '','' \<in> set s \<or> CHR 0x22 \<in> set s \<or> CHR 0x0A \<in> set s
      then [CHR 0x22] @ concat (map (\<lambda>c. if c = CHR 0x22 then [CHR 0x22, CHR 0x22] else [c]) s)
           @ [CHR 0x22]
      else s)
   \<and> parseCSVLine (escapeCsv s) = [s]"
proof
  show "escapeCsv s =
     (if CHR '','' \<in> set s \<or> CHR 0x22 \<in> set s \<or> CHR 0x0A \<in> set s
      then [CHR 0x22] @ concat (map (\<lambda>c. if c = CHR 0x22 then [CHR 0x22, CHR 0x22] else [c]) s)
           @ [CHR 0x22]
      else s)"
    by (simp add: escapeCsv_def str_includes_single)
  show "parseCSVLine (escapeCsv s) = [s]"
  proof (cases "CHR '','' \<in> set s \<or> CHR 0x22 \<in> set s \<or> CHR 0x0A \<in> set s")
    case True
    then have "escapeCsv s =
        CHR 0x22 # (concat (map (\<lambda>c. if c = CHR 0x22 then [CHR 0x22, CHR 0x22] else [c]) s)
                    @ [CHR 0x22])"
      by (simp add: escapeCsv_def str_includes_single)
    then show ?thesis
      using parseChars_quoted [of s "[]" "[]"] by (simp add: parseCSVLine_def)
  next
    case False
    then show ?thesis
      using parseChars_bare [of s "[]" "[]"]
      by (simp add: escapeCsv_def str_includes_single parseCSVLine_def)
  qed
qed

text \<open>
  The field \<open>He said "hi", ok\<close> is written as \<open>"He said ""hi"", ok"\<close> and read back; the
  field \<open>Biology\<close> is written bare.
\<close>

theorem escapeCsv_roundtrip_witness:
  "escapeCsv (''He said '' @ [CHR 0x22] @ ''hi'' @ [CHR 0x22] @ '', ok'')
     = [CHR 0x22] @ ''He said '' @ [CHR 0x22, CHR 0x22] @ ''hi'' @ [CHR 0x22, CHR 0x22] @ '', ok''
       @ [CHR 0x22]
   \<and> parseCSVLine ([CHR 0x22] @ ''He said '' @ [CHR 0x22, CHR 0x22] @ ''hi''
                    @ [CHR 0x22, CHR 0x22] @ '', ok'' @ [CHR 0x22])
     = [''He said '' @ [CHR 0x22] @ ''hi'' @ [CHR 0x22] @ '', ok'']
   \<and> escapeCsv ''Biology'' = ''Biology''"
proof -
  have a: "escapeCsv (''He said '' @ [CHR 0x22] @ ''hi'' @ [CHR 0x22] @ '', ok'')
     = [CHR 0x22] @ ''He said '' @ [CHR 0x22, CHR 0x22] @ ''hi'' @ [CHR 0x22, CHR 0x22] @ '', ok''
       @ [CHR 0x22]"
    using escapeCsv_roundtrip [of "''He said '' @ [CHR 0x22] @ ''hi'' @ [CHR 0x22] @ '', ok''"]
    by simp
  have b: "parseCSVLine (escapeCsv (''He said '' @ [CHR 0x22] @ ''hi'' @ [CHR 0x22] @ '', ok''))
     = [''He said '' @ [CHR 0x22] @ ''hi'' @ [CHR 0x22] @ '', ok'']"
    using escapeCsv_roundtrip [of "''He said '' @ [CHR 0x22] @ ''hi'' @ [CHR 0x22] @ '', ok''"]
    by blast
  have c: "escapeCsv ''Biology'' = ''Biology''"
    using escapeCsv_roundtrip [of "''Biology''"] by simp
  from a b c show ?thesis by simp
qed

section \<open>Normalizer and validator: structure of the loops\<close>

lemma dropWhile_fix: "xs = [] \<or> \<not> P (hd xs) \<Longrightarrow> dropWhile P xs = xs"
  by (cases xs) auto

lemma rev_dropWhile_rev_hd:
  assumes "u = [] \<or> \<not> P (hd u)"
  shows "rev (dropWhile P (rev u)) = [] \<or> \<not> P (hd (rev (dropWhile P (rev u))))"
proof (cases "rev (dropWhile P (rev u)) = []")
  case True
  then show ?thesis by simp
next
  case False
  have "rev u = takeWhile P (rev u) @ dropWhile P (rev u)" by simp
  then have "u = rev (dropWhile P (rev u)) @ rev (takeWhile P (rev u))"
    by (metis rev_append rev_rev_ident)
  then have "hd u = hd (rev (dropWhile P (rev u)))"
    using False by (metis hd_append2)
  moreover have "u \<noteq> []" using False by auto
  ultimately show ?thesis using assms by auto
qed

lemma trim_trim: "trim (trim s) = trim s"
proof -
  let ?u = "dropWhile isSpace s"
  have u: "?u = [] \<or> \<not> isSpace (hd ?u)"
    using hd_dropWhile [of isSpace s] by blast
  have w: "trim s = [] \<or> \<not> isSpace (hd (trim s))"
    unfolding trim_def using rev_dropWhile_rev_hd [of "dropWhile isSpace s" isSpace] u by blast
  have "dropWhile isSpace (trim s) = trim s"
    using dropWhile_fix [of "trim s" isSpace] w by blast
  moreover have "dropWhile isSpace (rev (trim s)) = rev (trim s)"
    by (simp add: trim_def)
  ultimately show ?thesis
    by (simp add: trim_def)
qed

lemma fold_push: "fold (\<lambda>p out. out @ f p) ps acc = acc @ concat (map f ps)"
  by (induction ps arbitrary: acc) auto

lemma outputRowOf_concat:
  "outputRowOf nts ps r d n = [d, n] @ concat (map (\<lambda>p. periodCells nts (trim (cellText r p))) ps)"
  unfolding outputRowOf_def by (rule fold_push)

lemma outputHeadersOf_concat:
  "outputHeadersOf ps = [''Department'', ''Teacher''] @ concat (map (\<lambda>p. [p @ '' A Day'', p @ '' B Day'']) ps)"
  unfolding outputHeadersOf_def by (rule fold_push)

lemma length_periodCells: "length (periodCells nts c) = 2"
  by (simp add: periodCells_def)

lemma length_concat_pairs: "(\<And>p. length (f p) = 2) \<Longrightarrow> length (concat (map f ps)) = 2 * length ps"
  by (induction ps) auto

lemma length_outputRowOf: "length (outputRowOf nts ps r d n) = 2 + 2 * length ps"
  by (simp add: outputRowOf_concat length_concat_pairs length_periodCells)

lemma length_outputHeadersOf: "length (outputHeadersOf ps) = 2 + 2 * length ps"
  by (simp add: outputHeadersOf_concat length_concat_pairs)

lemma buildTeachers_rows:
  "t \<in> set (buildTeachers tc dc nts ps rs) \<Longrightarrow>
   \<exists>r\<in>set rs. columnText tc r \<noteq> [] \<and> teacher t = columnText tc r \<and> dept t = columnText dc r
      \<and> data t = outputRowOf nts ps r (columnText dc r) (columnText tc r)"
  by (induction rs) (auto split: if_splits)

lemma buildTeachers_names:
  "map teacher (buildTeachers tc dc nts ps rs) = filter (\<lambda>n. n \<noteq> []) (map (columnText tc) rs)"
  by (induction rs) auto

lemma validateRows_eq:
  "validateRows ts issues seen allc =
     (issues @ rowIssues seen ts,
      fold setAdd (map (\<lambda>t. toLowerCase (teacher t)) ts) seen,
      allc @ concat (map courseCells ts))"
  by (induction ts arbitrary: issues seen allc) auto

lemma validateSchedule_eq:
  "validateSchedule ts s =
     rowIssues [] ts
     @ concat (map (\<lambda>c. typoIssues c (nonTeachingSetOf s)) (jsSet (concat (map courseCells ts))))"
  by (simp add: validateSchedule_def validateRows_eq)

lemma typoIssues_severity: "i \<in> set (typoIssues c ls) \<Longrightarrow> severity i = ''warning''"
  by (induction ls) (auto split: if_splits)

lemma rowIssues_severity:
  "\<forall>t\<in>set ts. trim (teacher t) \<noteq> [] \<Longrightarrow> i \<in> set (rowIssues seen ts) \<Longrightarrow> severity i = ''warning''"
proof (induction ts arbitrary: seen)
  case Nil
  then show ?case by simp
next
  case (Cons t ts)
  have "teacher t \<noteq> []" using Cons.prems(1) by (auto simp: trim_def)
  then have "missingNameIssues t = []" using Cons.prems(1) by (simp add: missingNameIssues_def)
  then show ?case using Cons
    by (auto simp: duplicateIssues_def allPrepIssues_def split: if_splits)
qed

lemma findLoop_no_inherited:
  "\<forall>n\<in>set names. headerKey n \<noteq> ''__proto__'' \<and> headerKey n \<noteq> ''constructor'' \<Longrightarrow>
   findLoop m names \<noteq> Inherited k"
  by (induction names) (auto split: option.splits)

lemma findColumnName_teacher: "findColumnName hs teacherNames \<noteq> Inherited k"
  unfolding findColumnName_def
  by (rule findLoop_no_inherited) (simp add: teacherNames_def headerKey_def toLowerCase_def lowerChar_def trim_def isSpace_def)

lemma findColumnName_dept: "findColumnName hs deptNames \<noteq> Inherited k"
  unfolding findColumnName_def
  by (rule findLoop_no_inherited) (simp add: deptNames_def headerKey_def toLowerCase_def lowerChar_def trim_def isSpace_def)

text \<open>
  Claim C10. The normalizer's output is rectangular. The header list is \<open>Department\<close>,
  \<open>Teacher\<close> and then, for each detected period column from left to right, its \<open>A Day\<close>
  and its \<open>B Day\<close> header, so its length is two plus twice the number of period columns.
  Every teacher row has the same length: its department, its name, and then for each
  period column, in the same order, the two cells made from that column's cell of one
  source row.
\<close>

theorem normalizer_rectangular:
  "length (headers (parseExcelSchedule sheetData labels))
     = 2 + 2 * length (periodCols (parseExcelSchedule sheetData labels))
   \<and> headers (parseExcelSchedule sheetData labels)
     = [''Department'', ''Teacher'']
       @ concat (map (\<lambda>p. [p @ '' A Day'', p @ '' B Day''])
                     (periodCols (parseExcelSchedule sheetData labels)))
   \<and> (\<forall>t\<in>set (teachers (parseExcelSchedule sheetData labels)).
        length (data t) = length (headers (parseExcelSchedule sheetData labels))
        \<and> (\<exists>r\<in>set sheetData.
              data t = [dept t, teacher t]
                @ concat (map (\<lambda>p. periodCells (nonTeachingSetOf labels) (trim (cellText r p)))
                              (periodCols (parseExcelSchedule sheetData labels)))))"
proof (cases sheetData)
  case Nil
  then show ?thesis by (simp add: parseExcelSchedule_def)
next
  case (Cons first rest)
  define ps where "ps = filter (\<lambda>h. str_includes (toLowerCase h) ''period'') (map fst first)"
  have h: "headers (parseExcelSchedule sheetData labels) = outputHeadersOf ps"
    and p: "periodCols (parseExcelSchedule sheetData labels) = ps"
    and t: "teachers (parseExcelSchedule sheetData labels)
            = buildTeachers (findColumnName (map fst first) teacherNames)
                (findColumnName (map fst first) deptNames) (nonTeachingSetOf labels) ps sheetData"
    by (simp_all add: parseExcelSchedule_def Cons ps_def)
  have rows: "length (data t) = length (outputHeadersOf ps)
        \<and> (\<exists>r\<in>set sheetData.
              data t = [dept t, teacher t]
                @ concat (map (\<lambda>p. periodCells (nonTeachingSetOf labels) (trim (cellText r p))) ps))"
    if "t \<in> set (teachers (parseExcelSchedule sheetData labels))" for t
  proof -
    have mem: "t \<in> set (buildTeachers (findColumnName (map fst first) teacherNames)
                (findColumnName (map fst first) deptNames) (nonTeachingSetOf labels) ps sheetData)"
      using that unfolding t .
    obtain r where r: "r \<in> set sheetData" "teacher t = columnText (findColumnName (map fst first) teacherNames) r"
      "dept t = columnText (findColumnName (map fst first) deptNames) r"
      "data t = outputRowOf (nonTeachingSetOf labels) ps r (columnText (findColumnName (map fst first) deptNames) r)
                  (columnText (findColumnName (map fst first) teacherNames) r)"
      using buildTeachers_rows [OF mem] by blast
    have "length (data t) = length (outputHeadersOf ps)"
      by (simp add: r(4) length_outputRowOf length_outputHeadersOf)
    moreover have "data t = [dept t, teacher t]
                @ concat (map (\<lambda>p. periodCells (nonTeachingSetOf labels) (trim (cellText r p))) ps)"
      by (simp add: r outputRowOf_concat)
    ultimately show ?thesis using r(1) by blast
  qed
  show ?thesis
    unfolding h p using rows
    by (simp add: length_outputHeadersOf) (simp add: outputHeadersOf_concat)
qed

text \<open>
  Claim C5. Every teacher row the normalizer produces has a name that is not empty after
  trimming: the names of the output rows are the non-empty resolved names of the source
  rows, in order, the rows with an empty resolved name leaving nothing behind. The
  validator, run on the normalizer's output with any label string, therefore emits
  warnings only, and never the missing-teacher-name error.
\<close>

theorem normalizer_names_nonempty:
  "(\<forall>t\<in>set (teachers (parseExcelSchedule sheetData labels)). trim (teacher t) \<noteq> [])
   \<and> map teacher (teachers (parseExcelSchedule sheetData labels))
     = (case sheetData of
          [] \<Rightarrow> []
        | first # _ \<Rightarrow>
            filter (\<lambda>n. n \<noteq> [])
              (map (columnText (findColumnName (map fst first) teacherNames)) sheetData))
   \<and> (\<forall>i\<in>set (validateSchedule (teachers (parseExcelSchedule sheetData labels)) labels').
         severity i = ''warning'')
   \<and> \<lparr> severity = ''error'', message = ''Missing teacher name in one row'' \<rparr>
       \<notin> set (validateSchedule (teachers (parseExcelSchedule sheetData labels)) labels')"
proof -
  have names: "\<forall>t\<in>set (teachers (parseExcelSchedule sheetData labels)). trim (teacher t) \<noteq> []"
  proof (cases sheetData)
    case Nil
    then show ?thesis by (simp add: parseExcelSchedule_def)
  next
    case (Cons first rest)
    show ?thesis
    proof
      fix t assume "t \<in> set (teachers (parseExcelSchedule sheetData labels))"
      then have "t \<in> set (buildTeachers (findColumnName (map fst first) teacherNames)
                (findColumnName (map fst first) deptNames) (nonTeachingSetOf labels)
                (filter (\<lambda>h. str_includes (toLowerCase h) ''period'') (map fst first)) sheetData)"
        by (simp add: parseExcelSchedule_def Cons)
      from buildTeachers_rows [OF this]
      obtain r where "columnText (findColumnName (map fst first) teacherNames) r \<noteq> []"
        "teacher t = columnText (findColumnName (map fst first) teacherNames) r"
        by blast
      then show "trim (teacher t) \<noteq> []"
        by (cases "findColumnName (map fst first) teacherNames")
           (simp_all add: columnText_def trim_trim)
    qed
  qed
  have kept: "map teacher (teachers (parseExcelSchedule sheetData labels))
     = (case sheetData of
          [] \<Rightarrow> []
        | first # _ \<Rightarrow>
            filter (\<lambda>n. n \<noteq> [])
              (map (columnText (findColumnName (map fst first) teacherNames)) sheetData))"
    by (cases sheetData) (simp_all add: parseExcelSchedule_def buildTeachers_names)
  have warn: "severity i = ''warning''"
    if "i \<in> set (validateSchedule (teachers (parseExcelSchedule sheetData labels)) labels')" for i
    using that rowIssues_severity [OF names] typoIssues_severity
    by (auto simp: validateSchedule_eq)
  have "\<lparr> severity = ''error'', message = ''Missing teacher name in one row'' \<rparr>
       \<notin> set (validateSchedule (teachers (parseExcelSchedule sheetData labels)) labels')"
    using warn by fastforce
  then show ?thesis using names kept warn by blast
qed

lemma exampleSheet_result:
  "parseExcelSchedule exampleSheet ''prep, lunch'' =
     \<lparr> headers = [''Department'', ''Teacher'', ''Period 1 A Day'', ''Period 1 B Day'',
                   ''Period 2 A Day'', ''Period 2 B Day''],
       teachers = [\<lparr> teacher = ''Lee, Anna'', dept = ''Math'',
                      data = [''Math'', ''Lee, Anna'', ''Algebra I (Room: 204)'',
                              ''Geometry (Room: 204)'', ''Prep'', ''Prep''] \<rparr>,
                   \<lparr> teacher = ''LEE, ANNA'', dept = ''Math'',
                      data = [''Math'', ''LEE, ANNA'', ''Prep'', ''Prep'', ''Lunhc'', ''Lunhc''] \<rparr>],
       periodCols = [''Period 1'', ''Period 2''] \<rparr>"
  by code_simp

text \<open>
  On the example sheet (three source rows, the second with a blank teacher name): six
  headers, two period columns, and two teacher rows of six cells each.
\<close>

theorem normalizer_rectangular_witness:
  "length (headers (parseExcelSchedule exampleSheet ''prep, lunch'')) = 6
   \<and> periodCols (parseExcelSchedule exampleSheet ''prep, lunch'') = [''Period 1'', ''Period 2'']
   \<and> map (\<lambda>t. length (data t)) (teachers (parseExcelSchedule exampleSheet ''prep, lunch''))
     = [6, 6]"
  using normalizer_rectangular [of exampleSheet "''prep, lunch''"]
  unfolding exampleSheet_result by simp

text \<open>
  On the example sheet the row with the blank name is dropped, and the validator's two
  issues on the result are warnings.
\<close>

theorem normalizer_names_nonempty_witness:
  "map teacher (teachers (parseExcelSchedule exampleSheet ''prep, lunch''))
     = [''Lee, Anna'', ''LEE, ANNA'']
   \<and> map severity
         (validateSchedule (teachers (parseExcelSchedule exampleSheet ''prep, lunch''))
            ''prep, lunch'')
     = [''warning'', ''warning'']"
proof -
  have "map severity
         (validateSchedule (teachers (parseExcelSchedule exampleSheet ''prep, lunch''))
            ''prep, lunch'')
     = [''warning'', ''warning'']"
    unfolding exampleSheet_result by code_simp
  then show ?thesis
    using normalizer_names_nonempty [of exampleSheet "''prep, lunch''" "''prep, lunch''"]
    unfolding exampleSheet_result by simp
qed

section \<open>Validator: duplicate teachers\<close>

lemma typoIssues_not_duplicate: "filter isDuplicateWarning (typoIssues c ls) = []"
  by (induction ls) (auto simp: isDuplicateWarning_def)

lemma set_setAdd: "set (setAdd x s) = insert x (set s)"
  by (auto simp: setAdd_def)

lemma upt_Suc_shift: "[0..<Suc n] = 0 # map Suc [0..<n]"
  by (simp add: upt_conv_Cons map_Suc_upt del: upt_Suc)

lemma bex_upt_Suc: "(\<exists>j\<in>set [0..<Suc i]. P j) = (P 0 \<or> (\<exists>j\<in>set [0..<i]. P (Suc j)))"
  unfolding upt_Suc_shift by (simp del: upt_Suc set_upt)

text \<open>
  The duplicate warnings of the loop started with the set \<open>seen\<close>: one for each row whose
  case-folded name is in \<open>seen\<close> or in an earlier row.
\<close>

lemma rowIssues_duplicates:
  "filter isDuplicateWarning (rowIssues seen ts)
     = map (\<lambda>t. \<lparr> severity = ''warning'', message = ''Duplicate teacher: '' @ teacher t \<rparr>)
         (map (\<lambda>i. ts ! i)
            (filter (\<lambda>i. toLowerCase (teacher (ts ! i)) \<in> set seen
                        \<or> (\<exists>j\<in>set [0..<i].
                              toLowerCase (teacher (ts ! j)) = toLowerCase (teacher (ts ! i))))
               [0..<length ts]))"
proof (induction ts arbitrary: seen)
  case Nil
  then show ?case by simp
next
  case (Cons t ts)
  have head: "filter isDuplicateWarning
                (missingNameIssues t @ duplicateIssues seen t @ allPrepIssues t)
              = (if toLowerCase (teacher t) \<in> set seen
                 then [\<lparr> severity = ''warning'', message = ''Duplicate teacher: '' @ teacher t \<rparr>]
                 else [])"
    by (simp add: missingNameIssues_def duplicateIssues_def allPrepIssues_def isDuplicateWarning_def)
  have cond: "(toLowerCase (teacher ((t # ts) ! Suc i)) \<in> set seen
                \<or> (\<exists>j\<in>set [0..<Suc i].
                      toLowerCase (teacher ((t # ts) ! j)) = toLowerCase (teacher ((t # ts) ! Suc i))))
              = (toLowerCase (teacher (ts ! i)) \<in> set (setAdd (toLowerCase (teacher t)) seen)
                \<or> (\<exists>j\<in>set [0..<i].
                      toLowerCase (teacher (ts ! j)) = toLowerCase (teacher (ts ! i))))" for i
  proof -
    have "(\<exists>j\<in>set [0..<Suc i]. toLowerCase (teacher ((t # ts) ! j)) = toLowerCase (teacher (ts ! i)))
          = (toLowerCase (teacher t) = toLowerCase (teacher (ts ! i))
             \<or> (\<exists>j\<in>set [0..<i]. toLowerCase (teacher (ts ! j)) = toLowerCase (teacher (ts ! i))))"
      by (subst bex_upt_Suc) simp
    then show ?thesis by (auto simp: set_setAdd simp del: upt_Suc)
  qed
  show ?case
    unfolding rowIssues.simps length_Cons upt_Suc_shift [of "length ts"]
    using head Cons.IH [of "setAdd (toLowerCase (teacher t)) seen"] cond
    by (simp add: filter_map comp_def del: upt_Suc)
qed

text \<open>
  Claim C9. The duplicate-teacher warnings of the validator are, in order, one warning
  for each row whose case-folded teacher name already stands in an earlier row (the second
  and every further occurrence of a name), each naming the teacher of that row as written
  there; no other row gets one.
\<close>

theorem duplicate_warnings:
  "filter isDuplicateWarning (validateSchedule ts labels)
     = map (\<lambda>t. \<lparr> severity = ''warning'', message = ''Duplicate teacher: '' @ teacher t \<rparr>)
         (laterOccurrences ts)"
  by (simp add: validateSchedule_eq rowIssues_duplicates [of "[]", simplified] filter_concat comp_def
        typoIssues_not_duplicate laterOccurrences_def)

text \<open>
  Two rows named \<open>Smith, Jane\<close> and \<open>smith, jane\<close>: exactly one duplicate warning, for the
  second.
\<close>

theorem duplicate_warnings_witness:
  "filter isDuplicateWarning (validateSchedule janeRows ''Prep, Lunch'')
     = [\<lparr> severity = ''warning'', message = ''Duplicate teacher: smith, jane'' \<rparr>]"
proof -
  have "laterOccurrences janeRows
        = [\<lparr> teacher = ''smith, jane'', dept = ''Art'',
              data = [''Art'', ''smith, jane'', ''Drawing'', ''Prep''] \<rparr>]"
    by code_simp
  then show ?thesis
    using duplicate_warnings [of janeRows "''Prep, Lunch''"] by simp
qed

section \<open>Validator: all-prep schedules\<close>

lemma str_includes_sublist: "str_includes s p = sublist p s"
  by (induction s) (auto simp: sublist_Cons_right)

text \<open>A pattern without the separator cannot lie across it.\<close>

lemma sublist_sep:
  assumes "p \<noteq> []" "c \<notin> set p"
  shows "sublist p (x @ c # rest) = (sublist p x \<or> sublist p rest)"
proof -
  have a: "\<not> prefix p (c # rest)"
    using assms by (cases p) auto
  have b: "sublist p (c # rest) = sublist p rest"
    using a by (simp add: sublist_Cons_right)
  have c: "\<not> (\<exists>xs1 xs2. p = xs1 @ xs2 \<and> xs1 \<noteq> [] \<and> xs2 \<noteq> [] \<and> suffix xs1 x \<and> prefix xs2 (c # rest))"
  proof
    assume "\<exists>xs1 xs2. p = xs1 @ xs2 \<and> xs1 \<noteq> [] \<and> xs2 \<noteq> [] \<and> suffix xs1 x \<and> prefix xs2 (c # rest)"
    then obtain xs1 xs2 where h: "p = xs1 @ xs2" "xs2 \<noteq> []" "prefix xs2 (c # rest)" by blast
    then have "c \<in> set xs2" by (cases xs2) auto
    then show False using assms(2) h(1) by simp
  qed
  have d: "(\<exists>xs1 xs2. p = xs1 @ xs2 \<and> suffix xs1 x \<and> prefix xs2 (c # rest))
           \<Longrightarrow> sublist p x \<or> sublist p (c # rest)"
  proof -
    assume "\<exists>xs1 xs2. p = xs1 @ xs2 \<and> suffix xs1 x \<and> prefix xs2 (c # rest)"
    then obtain xs1 xs2 where h: "p = xs1 @ xs2" "suffix xs1 x" "prefix xs2 (c # rest)" by blast
    show ?thesis
    proof (cases "xs1 = []")
      case True
      then show ?thesis using h by auto
    next
      case False
      then have "xs2 = []" using c h by blast
      then show ?thesis using h by auto
    qed
  qed
  show ?thesis
    using b d by (auto simp: sublist_append)
qed

lemma sublist_join:
  assumes "p \<noteq> []" "c \<notin> set p"
  shows "sublist p (join [c] xs) = (\<exists>x\<in>set xs. sublist p x)"
proof (induction xs)
  case Nil
  then show ?case using assms by simp
next
  case (Cons x xs)
  then show ?case
    using sublist_sep [OF assms] by (cases xs) simp_all
qed

lemma toLowerCase_join: "toLowerCase (join sep xs) = join (toLowerCase sep) (map toLowerCase xs)"
  by (induction sep xs rule: join.induct) (simp_all add: toLowerCase_def)

lemma includes_room_join:
  "str_includes (toLowerCase (join ''|'' xs)) ''(room:''
     = (\<exists>x\<in>set xs. str_includes (toLowerCase x) ''(room:'')"
proof -
  have "toLowerCase ''|'' = ''|''" by (simp add: toLowerCase_def lowerChar_def)
  then show ?thesis
    using sublist_join [of "''(room:''" "CHR ''|''" "map toLowerCase xs"]
    by (simp add: toLowerCase_join str_includes_sublist)
qed

lemma typoIssues_not_allPrep: "filter isAllPrepWarning (typoIssues c ls) = []"
  by (induction ls) (auto simp: isAllPrepWarning_def)

lemma allPrepIssues_iff:
  "allPrepIssues t
     = (if allPrepRow t
        then [\<lparr> severity = ''warning'', message = ''All-prep schedule: '' @ teacher t \<rparr>] else [])"
proof -
  have "list_all (\<lambda>c. \<not> str_includes (toLowerCase c) ''(room:'') (data t)
        = (\<not> str_includes (toLowerCase (join ''|'' (data t))) ''(room:'')"
    by (simp add: includes_room_join list_all_iff)
  then show ?thesis
    by (auto simp: allPrepIssues_def allPrepRow_def)
qed

lemma rowIssues_allPrep:
  "filter isAllPrepWarning (rowIssues seen ts)
     = map (\<lambda>t. \<lparr> severity = ''warning'', message = ''All-prep schedule: '' @ teacher t \<rparr>)
         (filter allPrepRow ts)"
proof (induction ts arbitrary: seen)
  case Nil
  then show ?case by simp
next
  case (Cons t ts)
  have "filter isAllPrepWarning (missingNameIssues t @ duplicateIssues seen t @ allPrepIssues t)
        = (if allPrepRow t
           then [\<lparr> severity = ''warning'', message = ''All-prep schedule: '' @ teacher t \<rparr>] else [])"
    by (simp add: missingNameIssues_def duplicateIssues_def allPrepIssues_iff isAllPrepWarning_def)
  then show ?case using Cons.IH by simp
qed

text \<open>
  Claim C4, as amended. The all-prep warnings of the validator are, in order, exactly one
  warning for each row in which every period cell is \<open>Prep\<close> or empty and no entry of the
  row's data, the department and the teacher name in front included, holds \<open>(room:\<close> in
  any letter case; a row that is not so gets none.
\<close>

theorem allPrep_warnings:
  "filter isAllPrepWarning (validateSchedule ts labels)
     = map (\<lambda>t. \<lparr> severity = ''warning'', message = ''All-prep schedule: '' @ teacher t \<rparr>)
         (filter allPrepRow ts)"
  by (simp add: validateSchedule_eq rowIssues_allPrep filter_concat comp_def typoIssues_not_allPrep)

text \<open>
  Of the four example rows only the second is all-prep: the first has the one cell
  \<open>Biology (Room: 101)\<close> beside its \<open>Prep\<close> cells and gets no warning.
\<close>

theorem allPrep_warnings_witness:
  "filter isAllPrepWarning (validateSchedule exampleTeachers ''Prep, Lunch'')
     = [\<lparr> severity = ''warning'', message = ''All-prep schedule: Doe, John'' \<rparr>]"
proof -
  have "map teacher (filter allPrepRow exampleTeachers) = [''Doe, John'']"
    by code_simp
  then show ?thesis
    using allPrep_warnings [of exampleTeachers "''Prep, Lunch''"]
    by (simp add: map_eq_Cons_conv)
qed

text \<open>
  Claim C4 as stated fails: in the row of a teacher of the department \<open>Gym (room: 12)\<close>
  every period cell is \<open>Prep\<close> and no entry holds the substring \<open>(Room:\<close>, yet the
  validator emits no all-prep warning, because the department entry holds \<open>(room:\<close>.
\<close>

theorem allPrep_claim_counterexample:
  "claimedAllPrepRow gymRow
   \<and> filter isAllPrepWarning (validateSchedule [gymRow] ''Prep, Lunch'') = []"
  by code_simp

section \<open>Validator: typo detection\<close>

text \<open>The inner loop finds the first label within distance, unless the course is barred.\<close>

lemma typoIssues_find:
  "typoIssues c ls
     = (if str_includes (toLowerCase c) ''(room:'' then []
        else (case find (withinTypoDistance c) ls of
                Some label \<Rightarrow> [typoWarning c label]
              | None \<Rightarrow> []))"
proof -
  have w: "(levenshteinDistance (toLowerCase c) l > 0
              \<and> levenshteinDistance (toLowerCase c) l \<le> 2
              \<and> \<not> str_includes (toLowerCase c) ''(room:'')
           = (withinTypoDistance c l \<and> \<not> str_includes (toLowerCase c) ''(room:'')" for l
    by (auto simp: withinTypoDistance_def)
  show ?thesis
    by (induction ls) (simp_all add: w typoWarning_def)
qed

lemma typoIssues_typo: "filter isTypoWarning (typoIssues c ls) = typoIssues c ls"
  by (induction ls) (auto simp: isTypoWarning_def)

lemma rowIssues_not_typo: "filter isTypoWarning (rowIssues seen ts) = []"
  by (induction ts arbitrary: seen)
     (auto simp: missingNameIssues_def duplicateIssues_def allPrepIssues_def isTypoWarning_def)

lemma set_fold_setAdd: "set (fold setAdd xs acc) = set acc \<union> set xs"
  by (induction xs arbitrary: acc) (auto simp: set_setAdd)

lemma distinct_fold_setAdd: "distinct acc \<Longrightarrow> distinct (fold setAdd xs acc)"
  by (induction xs arbitrary: acc) (auto simp: setAdd_def)

lemma set_jsSet: "set (jsSet xs) = set xs"
  by (simp add: jsSet_def set_fold_setAdd)

lemma distinct_jsSet: "distinct (jsSet xs)"
  by (simp add: jsSet_def distinct_fold_setAdd)

text \<open>
  Claim C3, as amended. The course strings checked are the distinct period cells that are
  not empty, not \<open>Prep\<close> and do not hold \<open>(Room:\<close>, each once. For each of them the
  validator emits one typo warning exactly when its case-folded form does not hold
  \<open>(room:\<close> and some configured label is at case-folded edit distance 1 or 2 from it; the
  warning names the first such label of the configured list; no warning is emitted
  otherwise, and a label at distance 0 is never the one named. The distance is that of
  \<open>levenshteinDistance\<close>, which is the least number of single-character edits (lemmas
  \<open>levenshteinDistance_editDistance\<close> and \<open>levenshteinDistance_least_edits\<close> below).
\<close>

theorem typo_warnings:
  "filter isTypoWarning (validateSchedule ts labels)
     = concat (map (\<lambda>c. if str_includes (toLowerCase c) ''(room:'' then []
                         else (case find (withinTypoDistance c) (nonTeachingSetOf labels) of
                                 Some label \<Rightarrow> [typoWarning c label]
                               | None \<Rightarrow> []))
                   (jsSet (concat (map courseCells ts))))
   \<and> distinct (jsSet (concat (map courseCells ts)))
   \<and> set (jsSet (concat (map courseCells ts)))
       = {c. c \<noteq> [] \<and> c \<noteq> ''Prep'' \<and> \<not> str_includes c ''(Room:''
             \<and> (\<exists>t\<in>set ts. c \<in> set (drop 2 (data t)))}"
proof -
  have "filter isTypoWarning (validateSchedule ts labels)
        = concat (map (\<lambda>c. typoIssues c (nonTeachingSetOf labels))
                      (jsSet (concat (map courseCells ts))))"
    by (simp add: validateSchedule_eq rowIssues_not_typo filter_concat comp_def typoIssues_typo)
  moreover have "set (jsSet (concat (map courseCells ts)))
       = {c. c \<noteq> [] \<and> c \<noteq> ''Prep'' \<and> \<not> str_includes c ''(Room:''
             \<and> (\<exists>t\<in>set ts. c \<in> set (drop 2 (data t)))}"
    by (auto simp: set_jsSet courseCells_def)
  ultimately show ?thesis
    by (simp add: typoIssues_find distinct_jsSet)
qed

text \<open>
  With the labels \<open>prep\<close> and \<open>lunch\<close>: \<open>perp\<close> (distance 2), \<open>xprep\<close> (distance 1) and
  \<open>Perp\<close> get one warning each, although \<open>perp\<close> stands in two rows; \<open>math\<close> (distance 4)
  and \<open>Lunch\<close> (distance 0 from \<open>lunch\<close>) get none.
\<close>

theorem typo_warnings_witness:
  "filter isTypoWarning (validateSchedule exampleTeachers ''Prep, Lunch'')
     = [typoWarning ''perp'' ''prep'', typoWarning ''xprep'' ''prep'', typoWarning ''Perp'' ''prep'']
   \<and> jsSet (concat (map courseCells exampleTeachers))
     = [''math'', ''perp'', ''xprep'', ''Lunch'', ''Perp'']"
proof -
  have a: "jsSet (concat (map courseCells exampleTeachers))
           = [''math'', ''perp'', ''xprep'', ''Lunch'', ''Perp'']"
    by code_simp
  have b: "concat (map (\<lambda>c. if str_includes (toLowerCase c) ''(room:'' then []
                         else (case find (withinTypoDistance c) (nonTeachingSetOf ''Prep, Lunch'') of
                                 Some label \<Rightarrow> [typoWarning c label]
                               | None \<Rightarrow> []))
                   [''math'', ''perp'', ''xprep'', ''Lunch'', ''Perp''])
           = [typoWarning ''perp'' ''prep'', typoWarning ''xprep'' ''prep'', typoWarning ''Perp'' ''prep'']"
    by code_simp
  show ?thesis
    using typo_warnings [of exampleTeachers "''Prep, Lunch''"] a b by simp
qed

text \<open>
  Claim C3 as stated fails: the cell \<open>(room:\<close> is a course cell (not \<open>Prep\<close>, without
  \<open>(Room:\<close>), its case-folded distance to the configured label \<open>room\<close> is 2, and the
  validator emits no typo warning for it. Nor does it for an empty cell, which is not
  \<open>Prep\<close> and is without \<open>(Room:\<close> too, at distance 2 from the label \<open>pd\<close>.
\<close>

theorem typo_claim_counterexample:
  "''(room:'' \<in> set (courseCells roomRow)
   \<and> nonTeachingSetOf ''Room'' = [''room'']
   \<and> levenshteinDistance (toLowerCase ''(room:'') ''room'' = 2
   \<and> filter isTypoWarning (validateSchedule [roomRow] ''Room'') = []
   \<and> [] \<in> set (drop 2 (data blankRow))
   \<and> nonTeachingSetOf ''PD'' = [''pd'']
   \<and> levenshteinDistance (toLowerCase []) ''pd'' = 2
   \<and> filter isTypoWarning (validateSchedule [blankRow] ''PD'') = []"
  by code_simp

section \<open>Cell parser: day tracks\<close>

lemma parseLines_entries:
  "parseLines ls aDay bDay =
     \<lparr> aDayClasses = aDay @ map fst (filter (\<lambda>e. snd e \<noteq> Some CHR ''B'') (cellEntries ls)),
       bDayClasses = bDay @ map fst (filter (\<lambda>e. snd e \<noteq> Some CHR ''A'') (cellEntries ls)) \<rparr>"
  by (induction ls aDay bDay rule: parseLines.induct) auto

text \<open>
  Claim C1. Where the parser stands at a course line whose next line is a details line,
  it consumes both and pushes the class made from them to \<open>aDayClasses\<close> only when the
  day flag is \<open>A\<close>, to \<open>bDayClasses\<close> only when it is \<open>B\<close>, and to both when there is no
  day flag (the flag is one of the three). For the whole cell, the two day tracks are
  read off the cell's entries in source line order: \<open>aDayClasses\<close> holds the classes of
  the entries whose day flag is not \<open>B\<close>, \<open>bDayClasses\<close> those whose day flag is not
  \<open>A\<close>, each in the order of the lines.
\<close>

theorem parsePeriodCell_tracks:
  "parsePeriodCell cell =
     (if trim cell = [] then \<lparr> aDayClasses = [], bDayClasses = [] \<rparr>
      else \<lparr> aDayClasses =
               map fst (filter (\<lambda>e. snd e \<noteq> Some CHR ''B'') (cellEntries (split CHR 0x0A cell))),
             bDayClasses =
               map fst (filter (\<lambda>e. snd e \<noteq> Some CHR ''A'') (cellEntries (split CHR 0x0A cell))) \<rparr>)
   \<and> (hasDetails details \<longrightarrow>
        parseLines (line # details # rest) aDay bDay
          = parseLines rest
              (if daysMatch details = Some CHR ''B'' then aDay
               else aDay @ [detailsClass line details])
              (if daysMatch details = Some CHR ''A'' then bDay
               else bDay @ [detailsClass line details]))
   \<and> daysMatch details \<in> {None, Some CHR ''A'', Some CHR ''B''}"
proof -
  have "daysMatch details \<in> {None, Some CHR ''A'', Some CHR ''B''}"
    by (induction details) (auto split: list.splits)
  then show ?thesis
    by (simp add: parsePeriodCell_def parseLines_entries)
qed

text \<open>
  The example cell: \<open>Algebra I\<close> with day flag \<open>A\<close>, then \<open>Geometry\<close> with day flag \<open>B\<close>.
  And \<open>Algebra I\<close> with day flag \<open>A\<close> before the lone course \<open>Chorus\<close>.
\<close>

theorem parsePeriodCell_tracks_witness:
  "hasDetails ''      FY  Room:204  Days:A''
   \<and> parseLines (''Algebra I'' # ''      FY  Room:204  Days:A'' # [''Chorus'']) [] []
     = \<lparr> aDayClasses = [\<lparr> course = ''Algebra I'', room = ''204'', type = ''FY'' \<rparr>,
                        \<lparr> course = ''Chorus'', room = [], type = ''FY'' \<rparr>],
         bDayClasses = [\<lparr> course = ''Chorus'', room = [], type = ''FY'' \<rparr>] \<rparr>
   \<and> parsePeriodCell exampleCell
     = \<lparr> aDayClasses = [\<lparr> course = ''Algebra I'', room = ''204'', type = ''FY'' \<rparr>],
         bDayClasses = [\<lparr> course = ''Geometry'', room = ''204'', type = ''FY'' \<rparr>] \<rparr>"
proof -
  have h: "hasDetails ''      FY  Room:204  Days:A''"
    by code_simp
  have t: "trim exampleCell \<noteq> []"
    by code_simp
  have e: "cellEntries (split CHR 0x0A exampleCell)
           = [(\<lparr> course = ''Algebra I'', room = ''204'', type = ''FY'' \<rparr>, Some CHR ''A''),
              (\<lparr> course = ''Geometry'', room = ''204'', type = ''FY'' \<rparr>, Some CHR ''B'')]"
    by code_simp
  have d: "detailsClass ''Algebra I'' ''      FY  Room:204  Days:A''
           = \<lparr> course = ''Algebra I'', room = ''204'', type = ''FY'' \<rparr>"
    by code_simp
  have f: "daysMatch ''      FY  Room:204  Days:A'' = Some CHR ''A''"
    by code_simp
  have c: "parseLines [''Chorus''] [\<lparr> course = ''Algebra I'', room = ''204'', type = ''FY'' \<rparr>] []
           = \<lparr> aDayClasses = [\<lparr> course = ''Algebra I'', room = ''204'', type = ''FY'' \<rparr>,
                              \<lparr> course = ''Chorus'', room = [], type = ''FY'' \<rparr>],
               bDayClasses = [\<lparr> course = ''Chorus'', room = [], type = ''FY'' \<rparr>] \<rparr>"
    by code_simp
  note tracks = parsePeriodCell_tracks [of exampleCell "''      FY  Room:204  Days:A''"
      "''Algebra I''" "[''Chorus'']" "[]" "[]"]
  have p: "parsePeriodCell exampleCell
     = \<lparr> aDayClasses = [\<lparr> course = ''Algebra I'', room = ''204'', type = ''FY'' \<rparr>],
         bDayClasses = [\<lparr> course = ''Geometry'', room = ''204'', type = ''FY'' \<rparr>] \<rparr>"
    using tracks [THEN conjunct1] t unfolding e by simp
  have "parseLines (''Algebra I'' # ''      FY  Room:204  Days:A'' # [''Chorus'']) [] []
     = parseLines [''Chorus''] [\<lparr> course = ''Algebra I'', room = ''204'', type = ''FY'' \<rparr>] []"
    using tracks [THEN conjunct2, THEN conjunct1] h unfolding f d
    by (simp del: parseLines.simps)
  then show ?thesis
    using h p c by (simp del: parseLines.simps)
qed

section \<open>Schedule normalizer: the cells of a period column\<close>

lemma formatClassForCsv_dayCell:
  "(if formatClassForCsv classes \<noteq> [] then formatClassForCsv classes else ''Prep'')
     = dayCell classes"
  by (auto simp: formatClassForCsv_def dayCell_def split: list.splits)

lemma set_nonTeachingSetOf:
  "set (nonTeachingSetOf labels) = (\<lambda>s. toLowerCase (trim s)) ` set (split CHR '','' labels)"
  by (simp add: nonTeachingSetOf_def set_jsSet)

text \<open>
  Claim C2, as amended. For a row and the detected period columns, the normalizer pushes,
  after the department and the name, exactly two cells per period column, in column
  order. If the trimmed, case-folded cell text is one of the non-teaching labels (the
  trimmed, case-folded pieces of the label string), both cells are \<open>Prep\<close>. Otherwise
  each day's cell is made from the first class of that day alone: \<open>course (Room: room)\<close>
  when its room is not empty, its course when the room is empty and the course is not,
  and \<open>Prep\<close> when the day has no class or its first class has neither course nor room.
\<close>

theorem normalizer_cells:
  "outputRowOf nonTeachingSet periodColNames r d teacherName
     = [d, teacherName]
       @ concat (map (\<lambda>periodCol. periodCells nonTeachingSet (trim (cellText r periodCol)))
                     periodColNames)
   \<and> length (periodCells nonTeachingSet cellValue) = 2
   \<and> periodCells nonTeachingSet cellValue
     = (if toLowerCase cellValue \<in> set nonTeachingSet then [''Prep'', ''Prep'']
        else [dayCell (aDayClasses (parsePeriodCell cellValue)),
              dayCell (bDayClasses (parsePeriodCell cellValue))])
   \<and> set (nonTeachingSetOf labels)
     = (\<lambda>s. toLowerCase (trim s)) ` set (split CHR '','' labels)"
  by (simp add: outputRowOf_concat set_nonTeachingSetOf periodCells_def formatClassForCsv_dayCell)

text \<open>
  The example cell gives \<open>Algebra I (Room: 204)\<close> and \<open>Geometry (Room: 204)\<close>; the cell
  \<open>lunch\<close> is a label and gives \<open>Prep\<close> twice; a cell with two courses on both days gives
  the first of them.
\<close>

theorem normalizer_cells_witness:
  "periodCells (nonTeachingSetOf ''Prep, Lunch'') exampleCell
     = [''Algebra I (Room: 204)'', ''Geometry (Room: 204)'']
   \<and> periodCells (nonTeachingSetOf ''Prep, Lunch'') ''lunch'' = [''Prep'', ''Prep'']
   \<and> periodCells (nonTeachingSetOf ''Prep, Lunch'') (''Band'' @ [CHR 0x0A] @ ''Chorus'')
     = [''Band'', ''Band'']"
proof -
  have a: "toLowerCase exampleCell \<notin> set (nonTeachingSetOf ''Prep, Lunch'')"
    by code_simp
  have b: "dayCell (aDayClasses (parsePeriodCell exampleCell)) = ''Algebra I (Room: 204)''"
    by code_simp
  have c: "dayCell (bDayClasses (parsePeriodCell exampleCell)) = ''Geometry (Room: 204)''"
    by code_simp
  have d: "toLowerCase ''lunch'' \<in> set (nonTeachingSetOf ''Prep, Lunch'')"
    by code_simp
  have e: "toLowerCase (''Band'' @ [CHR 0x0A] @ ''Chorus'') \<notin> set (nonTeachingSetOf ''Prep, Lunch'')"
    by code_simp
  have f: "dayCell (aDayClasses (parsePeriodCell (''Band'' @ [CHR 0x0A] @ ''Chorus''))) = ''Band''"
    by code_simp
  have g: "dayCell (bDayClasses (parsePeriodCell (''Band'' @ [CHR 0x0A] @ ''Chorus''))) = ''Band''"
    by code_simp
  show ?thesis
    using normalizer_cells [of "nonTeachingSetOf ''Prep, Lunch''" "[]" "[]" "[]" "[]" exampleCell]
          normalizer_cells [of "nonTeachingSetOf ''Prep, Lunch''" "[]" "[]" "[]" "[]" "''lunch''"]
          normalizer_cells [of "nonTeachingSetOf ''Prep, Lunch''" "[]" "[]" "[]" "[]"
                               "''Band'' @ [CHR 0x0A] @ ''Chorus''"]
          a b c d e f g
    by simp
qed

text \<open>
  Claim C2 as stated fails: in the cell \<open>Art / Days:A / (blank line) / Days:B\<close> the B day
  has one class, with an empty course and an empty room; the claim's cell for it is the
  empty course, the normalizer's is \<open>Prep\<close>.
\<close>

theorem normalizer_cells_counterexample:
  "trim blankCourseCell = blankCourseCell
   \<and> bDayClasses (parsePeriodCell blankCourseCell) = [\<lparr> course = [], room = [], type = ''FY'' \<rparr>]
   \<and> claimedDayCell (bDayClasses (parsePeriodCell blankCourseCell)) = []
   \<and> periodCells (nonTeachingSetOf ''Prep, Lunch'') blankCourseCell = [''Art'', ''Prep'']"
  by code_simp

section \<open>Cell parser: the details line\<close>

lemma roomMatch_Some:
  "roomMatch s = Some r \<Longrightarrow>
   r \<noteq> [] \<and> (\<forall>c\<in>set r. \<not> isSpace c)
   \<and> (\<exists>u v. s = u @ ''Room:'' @ r @ v \<and> (v = [] \<or> isSpace (hd v)))"
proof (induction s)
  case Nil
  then show ?case by simp
next
  case (Cons c s)
  show ?case
  proof (cases "prefix ''Room:'' (c # s) \<and> takeWhile (\<lambda>x. \<not> isSpace x) (drop 5 (c # s)) \<noteq> []")
    case True
    then have r: "r = takeWhile (\<lambda>x. \<not> isSpace x) (drop 5 (c # s))"
      using Cons.prems by simp
    from True obtain w where w: "c # s = ''Room:'' @ w"
      by (auto simp: prefix_def)
    then have "drop 5 (c # s) = w" by simp
    then have "w = r @ dropWhile (\<lambda>x. \<not> isSpace x) w" and "r = takeWhile (\<lambda>x. \<not> isSpace x) w"
      using r by simp_all
    moreover have "dropWhile (\<lambda>x. \<not> isSpace x) w = [] \<or> isSpace (hd (dropWhile (\<lambda>x. \<not> isSpace x) w))"
      using hd_dropWhile [of "\<lambda>x. \<not> isSpace x" w] by blast
    ultimately have "\<exists>u v. c # s = u @ ''Room:'' @ r @ v \<and> (v = [] \<or> isSpace (hd v))"
      using w by (metis append_Nil)
    moreover have "r \<noteq> []" using True r by simp
    moreover have "\<forall>c\<in>set r. \<not> isSpace c"
      using r by (metis set_takeWhileD)
    ultimately show ?thesis by blast
  next
    case False
    then have "roomMatch s = Some r" using Cons.prems by (simp split: if_splits)
    from Cons.IH [OF this] obtain u v where
      "r \<noteq> []" "\<forall>c\<in>set r. \<not> isSpace c" "s = u @ ''Room:'' @ r @ v" "v = [] \<or> isSpace (hd v)"
      by blast
    then have "c # s = (c # u) @ ''Room:'' @ r @ v" by simp
    then show ?thesis
      using \<open>r \<noteq> []\<close> \<open>\<forall>c\<in>set r. \<not> isSpace c\<close> \<open>v = [] \<or> isSpace (hd v)\<close> by blast
  qed
qed

lemma roomMatch_None:
  "roomMatch s = None \<Longrightarrow> s = u @ ''Room:'' @ x # v \<Longrightarrow> isSpace x"
proof (induction s arbitrary: u)
  case Nil
  then show ?case by simp
next
  case (Cons c s)
  show ?case
  proof (cases u)
    case Nil
    then have "prefix ''Room:'' (c # s)" and "drop 5 (c # s) = x # v"
      using Cons.prems(2) by simp_all
    then show ?thesis
      using Cons.prems(1) by (cases "isSpace x") (simp_all split: if_splits)
  next
    case (Cons a u')
    then have "s = u' @ ''Room:'' @ x # v" using Cons.prems(2) by simp
    moreover have "roomMatch s = None" using Cons.prems(1) by (simp split: if_splits)
    ultimately show ?thesis using Cons.IH by blast
  qed
qed

lemma daysMatch_Some:
  "daysMatch s = Some d \<Longrightarrow>
   (d = CHR ''A'' \<or> d = CHR ''B'')
   \<and> (\<exists>u w v. s = u @ ''Days:'' @ w @ d # v \<and> (\<forall>c\<in>set w. isSpace c))"
proof (induction s)
  case Nil
  then show ?case by simp
next
  case (Cons c s)
  show ?case
  proof (cases "daysMatch s = Some d")
    case True
    from Cons.IH [OF this] obtain u w v where
      "d = CHR ''A'' \<or> d = CHR ''B''" "s = u @ ''Days:'' @ w @ d # v" "\<forall>c\<in>set w. isSpace c"
      by blast
    then have "c # s = (c # u) @ ''Days:'' @ w @ d # v" by simp
    then show ?thesis
      using \<open>d = CHR ''A'' \<or> d = CHR ''B''\<close> \<open>\<forall>c\<in>set w. isSpace c\<close> by blast
  next
    case False
    then have p: "prefix ''Days:'' (c # s)"
      and q: "\<exists>rest. dropWhile isSpace (drop 5 (c # s)) = d # rest"
      and ab: "d = CHR ''A'' \<or> d = CHR ''B''"
      using Cons.prems by (auto split: if_splits list.splits)
    from p obtain t where t: "c # s = ''Days:'' @ t" by (auto simp: prefix_def)
    then have "drop 5 (c # s) = t" by simp
    with q obtain rest where "dropWhile isSpace t = d # rest" by auto
    then have "t = takeWhile isSpace t @ d # rest"
      by (metis takeWhile_dropWhile_id)
    then have "c # s = [] @ ''Days:'' @ takeWhile isSpace t @ d # rest"
      using t by simp
    moreover have "\<forall>c\<in>set (takeWhile isSpace t). isSpace c"
      by (metis set_takeWhileD)
    ultimately show ?thesis using ab by blast
  qed
qed

lemma typeMatch_Some: "typeMatch s = Some t \<Longrightarrow> t \<in> set termTypes \<and> sublist t s"
proof (induction s)
  case Nil
  then show ?case by simp
next
  case (Cons c s)
  show ?case
  proof (cases "find (\<lambda>t. prefix t (c # s)) termTypes")
    case None
    then show ?thesis using Cons by (auto simp: sublist_Cons_right)
  next
    case (Some t')
    then have "t' = t" using Cons.prems by simp
    then have "t \<in> set termTypes" "prefix t (c # s)"
      using Some by (auto simp: find_Some_iff)
    then show ?thesis by (auto simp: sublist_Cons_right)
  qed
qed

lemma typeMatch_None: "typeMatch s = None \<Longrightarrow> t \<in> set termTypes \<Longrightarrow> \<not> sublist t s"
proof (induction s)
  case Nil
  then show ?case by (auto simp: termTypes_def)
next
  case (Cons c s)
  then have "find (\<lambda>t. prefix t (c # s)) termTypes = None" "typeMatch s = None"
    by (auto split: option.splits)
  then show ?case
    using Cons by (auto simp: sublist_Cons_right find_None_iff)
qed

text \<open>
  Claim C7. The room and the day flag are as the claim says (lemmas \<open>roomMatch_Some\<close>,
  \<open>roomMatch_None\<close> and \<open>daysMatch_Some\<close>). The term type is not: the code takes the
  leftmost occurrence of one of the seven codes anywhere in the line, also inside another
  token. In the details line \<open>Room:S101 Days:A\<close> no token is a term type, so the term type
  is \<open>FY\<close> by the claim, and the code gives \<open>S1\<close>, found in the room \<open>S101\<close>. And the
  scan depends on the order of the tokens: \<open>S1 Room:Q2\<close> gives \<open>S1\<close>, \<open>Room:Q2 S1\<close>
  gives \<open>Q2\<close>.
\<close>

theorem termType_inside_room:
  "detailsClass ''Biology'' ''Room:S101 Days:A''
     = \<lparr> course = ''Biology'', room = ''S101'', type = ''S1'' \<rparr>
   \<and> tokens ''Room:S101 Days:A'' = [''Room:S101'', ''Days:A'']
   \<and> claimedTermType ''Room:S101 Days:A'' = ''FY''
   \<and> type (detailsClass ''Biology'' ''S1 Room:Q2'') = ''S1''
   \<and> type (detailsClass ''Biology'' ''Room:Q2 S1'') = ''Q2''
   \<and> claimedTermType ''Room:Q2 S1'' = ''S1''"
  by code_simp

section \<open>Column mapper\<close>

lemma find_snoc:
  "find P (xs @ [x]) = (case find P xs of Some y \<Rightarrow> Some y | None \<Rightarrow> if P x then Some x else None)"
  by (induction xs) auto

lemma fold_lowerMap:
  "k \<noteq> ''__proto__'' \<Longrightarrow>
   fold (\<lambda>h m. if headerKey h = ''__proto__'' then m else m(headerKey h \<mapsto> h)) hs m k
     = (case find (\<lambda>h. headerKey h = k) (rev hs) of Some h \<Rightarrow> Some h | None \<Rightarrow> m k)"
proof (induction hs arbitrary: m)
  case Nil
  then show ?case by simp
next
  case (Cons h hs)
  then show ?case
    by (auto simp: find_snoc split: option.splits)
qed

lemma lowerMapOf_lastHeader: "k \<noteq> ''__proto__'' \<Longrightarrow> lowerMapOf hs k = lastHeader hs k"
  by (simp add: lowerMapOf_def lastHeader_def fold_lowerMap split: option.splits)

lemma findLoop_find:
  assumes "\<forall>n\<in>set names. headerKey n \<noteq> ''__proto__'' \<and> headerKey n \<noteq> ''constructor''"
  shows "findLoop (lowerMapOf hs) names
     = (case find (matchesHeader hs) names of
          None \<Rightarrow> Null
        | Some n \<Rightarrow> (case lastHeader hs (headerKey n) of Some h \<Rightarrow> Header h | None \<Rightarrow> Null))"
  using assms
  by (induction names)
     (auto simp: lowerMapOf_lastHeader matchesHeader_def split: option.splits)

lemma lastHeader_Some: "lastHeader hs k = Some h \<Longrightarrow> h \<in> set hs \<and> headerKey h = k"
proof -
  assume "lastHeader hs k = Some h"
  then obtain i where "i < length (rev hs)" "headerKey (rev hs ! i) = k" "h = rev hs ! i"
    unfolding lastHeader_def find_Some_iff by blast
  then have "h \<in> set (rev hs)" "headerKey h = k"
    using nth_mem by blast+
  then show ?thesis by simp
qed

text \<open>
  Claim C8, as amended. For candidate names whose key (lower-cased, then trimmed) is
  neither \<open>__proto__\<close> nor \<open>constructor\<close>, the column mapper compares the keys of headers
  and candidates, tries the candidates in order, and for the first candidate that matches
  returns the last header with the candidate's key, as written; a candidate matches when
  that last header is not the empty string. The header returned is one of the headers, is
  not empty and has the key of a candidate; and none is returned exactly when no candidate
  matches. \<open>findColumnName\<close> does the same.
\<close>

theorem findColumn_first_match:
  assumes "\<forall>n\<in>set names. headerKey n \<noteq> ''__proto__'' \<and> headerKey n \<noteq> ''constructor''"
  shows "findColumn hs names
     = (case find (matchesHeader hs) names of
          None \<Rightarrow> Null
        | Some n \<Rightarrow> (case lastHeader hs (headerKey n) of Some h \<Rightarrow> Header h | None \<Rightarrow> Null))
   \<and> findColumnName hs names = findColumn hs names
   \<and> (\<forall>h. findColumn hs names = Header h \<longrightarrow>
          h \<in> set hs \<and> h \<noteq> [] \<and> (\<exists>n\<in>set names. headerKey h = headerKey n))
   \<and> (findColumn hs names = Null \<longleftrightarrow> (\<forall>n\<in>set names. \<not> matchesHeader hs n))"
proof -
  have eq: "findColumn hs names
     = (case find (matchesHeader hs) names of
          None \<Rightarrow> Null
        | Some n \<Rightarrow> (case lastHeader hs (headerKey n) of Some h \<Rightarrow> Header h | None \<Rightarrow> Null))"
    unfolding findColumn_def by (rule findLoop_find [OF assms])
  have hdr: "h \<in> set hs \<and> h \<noteq> [] \<and> (\<exists>n\<in>set names. headerKey h = headerKey n)"
    if "findColumn hs names = Header h" for h
  proof -
    from that obtain n where n: "find (matchesHeader hs) names = Some n"
      "lastHeader hs (headerKey n) = Some h"
      unfolding eq by (auto split: option.splits)
    then have "n \<in> set names" "matchesHeader hs n"
      by (auto simp: find_Some_iff)
    then show ?thesis
      using n(2) lastHeader_Some [OF n(2)] by (auto simp: matchesHeader_def)
  qed
  have nul: "findColumn hs names = Null \<longleftrightarrow> (\<forall>n\<in>set names. \<not> matchesHeader hs n)"
  proof (cases "find (matchesHeader hs) names")
    case None
    then have "\<forall>n\<in>set names. \<not> matchesHeader hs n"
      by (simp add: find_None_iff)
    then show ?thesis unfolding eq using None by simp
  next
    case (Some n)
    then have "n \<in> set names" "matchesHeader hs n"
      by (auto simp: find_Some_iff)
    then show ?thesis
      unfolding eq using Some by (auto simp: matchesHeader_def split: option.splits)
  qed
  show ?thesis
    using eq hdr nul by (simp add: findColumnName_def findColumn_def)
qed

text \<open>
  Of the headers \<open>  Teacher \<close>, \<open>TEACHER\<close> and \<open>Dept\<close>, the candidates \<open>Name\<close> and
  \<open>teacher\<close> find \<open>TEACHER\<close>: the second candidate, and the last header with its key.
\<close>

theorem findColumn_first_match_witness:
  "headerKey ''Name'' = ''name'' \<and> headerKey ''teacher'' = ''teacher''
   \<and> findColumn [''  Teacher '', ''TEACHER'', ''Dept''] [''Name'', ''teacher''] = Header ''TEACHER''
   \<and> findColumn [''Dept''] [''Name'', ''teacher''] = Null"
proof -
  have k: "headerKey ''Name'' = ''name''" "headerKey ''teacher'' = ''teacher''"
    by code_simp+
  have a: "(case find (matchesHeader [''  Teacher '', ''TEACHER'', ''Dept'']) [''Name'', ''teacher''] of
              None \<Rightarrow> Null
            | Some n \<Rightarrow> (case lastHeader [''  Teacher '', ''TEACHER'', ''Dept''] (headerKey n) of
                           Some h \<Rightarrow> Header h | None \<Rightarrow> Null)) = Header ''TEACHER''"
    by code_simp
  have b: "(case find (matchesHeader [''Dept'']) [''Name'', ''teacher''] of
              None \<Rightarrow> Null
            | Some n \<Rightarrow> (case lastHeader [''Dept''] (headerKey n) of
                           Some h \<Rightarrow> Header h | None \<Rightarrow> Null)) = Null"
    by code_simp
  have h: "\<forall>n\<in>set [''Name'', ''teacher'']. headerKey n \<noteq> ''__proto__'' \<and> headerKey n \<noteq> ''constructor''"
    using k by simp
  show ?thesis
    using findColumn_first_match [OF h, of "[''  Teacher '', ''TEACHER'', ''Dept'']"]
          findColumn_first_match [OF h, of "[''Dept'']"] k a b
    by simp
qed

text \<open>
  Claim C8 as stated fails: the candidate of one space matches the empty header (both
  trim to the empty key), and the column mapper returns none, the empty header being
  falsy. And for the candidate \<open>Constructor\<close>, which matches no header, it returns
  neither none nor a header, but the inherited member of the lookup object.
\<close>

theorem findColumn_claim_counterexample:
  "headerKey [] = headerKey '' ''
   \<and> findColumn [[]] ['' ''] = Null
   \<and> findColumnName [[]] ['' ''] = Null
   \<and> findColumn [''Teacher''] [''Constructor''] = Inherited ''constructor''"
  by code_simp

section \<open>Edit distance: the table computes the recurrence\<close>

lemma fold_upt_invariant:
  assumes "lo \<le> hi" "P lo s" "\<And>k s. lo \<le> k \<Longrightarrow> k < hi \<Longrightarrow> P k s \<Longrightarrow> P (Suc k) (f k s)"
  shows "P hi (fold f [lo..<hi] s)"
  using assms
proof (induction hi)
  case 0
  then show ?case by simp
next
  case (Suc hi)
  show ?case
  proof (cases "lo = Suc hi")
    case True
    then show ?thesis using Suc.prems(2) by simp
  next
    case False
    then have le: "lo \<le> hi" using Suc.prems(1) by simp
    have "P hi (fold f [lo..<hi] s)"
      using Suc.IH [OF le Suc.prems(2)] Suc.prems(3) by simp
    then have "P (Suc hi) (f hi (fold f [lo..<hi] s))"
      using Suc.prems(3) [of hi] le by simp
    then show ?thesis using le by simp
  qed
qed

lemma setCell_length: "length (setCell dp i j v) = length dp"
  by (simp add: setCell_def)

lemma setCell_row_length: "length (setCell dp i j v ! r) = length (dp ! r)"
  by (cases "r = i"; cases "i < length dp") (simp_all add: setCell_def list_update_beyond)

lemma setCell_nth:
  "i < length dp \<Longrightarrow> j < length (dp ! i) \<Longrightarrow>
   setCell dp i j v ! i' ! j' = (if i' = i \<and> j' = j then v else dp ! i' ! j')"
  by (cases "i' = i") (simp_all add: setCell_def nth_list_update)

lemma editRecurrence_0: "editRecurrence a b i 0 = i"
  by (cases i) simp_all

lemma filledD:
  assumes "filled a b dp k m" "i \<le> length a" "j \<le> length b"
    "i = 0 \<or> j = 0 \<or> i < k \<or> (i = k \<and> j < m)"
  shows "dp ! i ! j = editRecurrence a b i j"
  using assms unfolding filled_def by blast

lemma filledI:
  assumes "length dp = length a + 1" "\<And>i. i \<le> length a \<Longrightarrow> length (dp ! i) = length b + 1"
    "\<And>i j. i \<le> length a \<Longrightarrow> j \<le> length b \<Longrightarrow> i = 0 \<or> j = 0 \<or> i < k \<or> (i = k \<and> j < m)
        \<Longrightarrow> dp ! i ! j = editRecurrence a b i j"
  shows "filled a b dp k m"
  using assms unfolding filled_def by blast

lemma filled_dims:
  assumes "filled a b dp k m"
  shows "length dp = length a + 1" "\<And>i. i \<le> length a \<Longrightarrow> length (dp ! i) = length b + 1"
  using assms unfolding filled_def by blast+

lemma filled_init:
  "filled a b
     (fold (\<lambda>j dp. setCell dp 0 j j) [0..<length b + 1]
        (fold (\<lambda>i dp. setCell dp i 0 i) [0..<length a + 1]
           (replicate (length a + 1) (replicate (length b + 1) 0))))
     1 1"
proof -
  define dp0 where "dp0 = replicate (length a + 1) (replicate (length b + 1) (0::nat))"
  define dp1 where "dp1 = fold (\<lambda>i dp. setCell dp i 0 i) [0..<length a + 1] dp0"
  define dp2 where "dp2 = fold (\<lambda>j dp. setCell dp 0 j j) [0..<length b + 1] dp1"
  define dims where "dims = (\<lambda>dp :: nat list list.
      length dp = length a + 1 \<and> (\<forall>i \<le> length a. length (dp ! i) = length b + 1))"
  have d0: "dims dp0"
    by (simp add: dims_def dp0_def del: replicate.simps)
  have "dims dp1 \<and> (\<forall>i < length a + 1. dp1 ! i ! 0 = i)"
    unfolding dp1_def
  proof (rule fold_upt_invariant [where P = "\<lambda>k dp. dims dp \<and> (\<forall>i < k. dp ! i ! 0 = i)"])
    show "0 \<le> length a + 1" by simp
    show "dims dp0 \<and> (\<forall>i<0. dp0 ! i ! 0 = i)" using d0 by simp
  next
    fix k dp
    assume "k < length a + 1" and "dims dp \<and> (\<forall>i<k. dp ! i ! 0 = i)"
    then show "dims (setCell dp k 0 k) \<and> (\<forall>i<Suc k. setCell dp k 0 k ! i ! 0 = i)"
      by (auto simp: dims_def setCell_length setCell_row_length setCell_nth less_Suc_eq)
  qed
  then have d1: "dims dp1" and c1: "\<forall>i \<le> length a. dp1 ! i ! 0 = i"
    by auto
  have "dims dp2 \<and> (\<forall>i \<le> length a. dp2 ! i ! 0 = i) \<and> (\<forall>j < length b + 1. dp2 ! 0 ! j = j)"
    unfolding dp2_def
  proof (rule fold_upt_invariant
      [where P = "\<lambda>k dp. dims dp \<and> (\<forall>i \<le> length a. dp ! i ! 0 = i) \<and> (\<forall>j < k. dp ! 0 ! j = j)"])
    show "0 \<le> length b + 1" by simp
    show "dims dp1 \<and> (\<forall>i\<le>length a. dp1 ! i ! 0 = i) \<and> (\<forall>j<0. dp1 ! 0 ! j = j)"
      using d1 c1 by simp
  next
    fix k dp
    assume "k < length b + 1"
      and "dims dp \<and> (\<forall>i\<le>length a. dp ! i ! 0 = i) \<and> (\<forall>j<k. dp ! 0 ! j = j)"
    then show "dims (setCell dp 0 k k) \<and> (\<forall>i\<le>length a. setCell dp 0 k k ! i ! 0 = i)
               \<and> (\<forall>j<Suc k. setCell dp 0 k k ! 0 ! j = j)"
      by (auto simp: dims_def setCell_length setCell_row_length setCell_nth less_Suc_eq)
  qed
  then have "filled a b dp2 1 1"
    by (intro filledI) (auto simp: dims_def editRecurrence_0)
  then show ?thesis
    by (simp add: dp2_def dp1_def dp0_def)
qed

lemma filled_cell:
  assumes "filled a b dp i j" "1 \<le> i" "i \<le> length a" "1 \<le> j" "j \<le> length b"
  shows "filled a b (levCell a b i j dp) i (Suc j)"
proof -
  obtain i' j' where ij: "i = Suc i'" "j = Suc j'"
    using assms(2,4) by (metis One_nat_def Suc_le_D)
  have len: "i < length dp" "j < length (dp ! i)"
    using assms by (auto simp: filled_def)
  have v1: "dp ! (i - 1) ! j = editRecurrence a b i' j"
    and v2: "dp ! i ! (j - 1) = editRecurrence a b i j'"
    and v3: "dp ! (i - 1) ! (j - 1) = editRecurrence a b i' j'"
    using assms ij by (auto simp: filled_def)
  have new: "levCell a b i j dp ! i ! j = editRecurrence a b i j"
    unfolding levCell_def using len v1 v2 v3 ij by (simp add: setCell_nth)
  have old: "levCell a b i j dp ! r ! c = dp ! r ! c" if "\<not> (r = i \<and> c = j)" for r c
    unfolding levCell_def by (simp only: setCell_nth [OF len] that if_False)
  show ?thesis
    unfolding filled_def
  proof (intro conjI allI impI)
    show "length (levCell a b i j dp) = length a + 1"
      using assms(1) by (simp add: levCell_def setCell_length filled_def)
    show "length (levCell a b i j dp ! r) = length b + 1" if "r \<le> length a" for r
      using assms(1) that by (simp add: levCell_def setCell_row_length filled_def)
    show "levCell a b i j dp ! r ! c = editRecurrence a b r c"
      if "r \<le> length a" "c \<le> length b" "r = 0 \<or> c = 0 \<or> r < i \<or> r = i \<and> c < Suc j" for r c
    proof (cases "r = i \<and> c = j")
      case True
      then show ?thesis using new by simp
    next
      case False
      then have "r = 0 \<or> c = 0 \<or> r < i \<or> r = i \<and> c < j"
        using that(3) by auto
      then have "dp ! r ! c = editRecurrence a b r c"
        using filledD [OF assms(1) that(1,2)] by blast
      then show ?thesis using old [OF False] by simp
    qed
  qed
qed

lemma filled_row:
  assumes "filled a b dp i 1" "1 \<le> i" "i \<le> length a"
  shows "filled a b (fold (levCell a b i) [1..<length b + 1] dp) (Suc i) 1"
proof -
  define row where "row = fold (levCell a b i) [1..<length b + 1] dp"
  have "filled a b row i (length b + 1)"
    unfolding row_def
  proof (rule fold_upt_invariant [where P = "\<lambda>m dp. filled a b dp i m"])
    show "1 \<le> length b + 1" by simp
    show "filled a b dp i 1" by (rule assms(1))
  next
    fix k s
    assume "1 \<le> k" "k < length b + 1" "filled a b s i k"
    then show "filled a b (levCell a b i k s) i (Suc k)"
      using filled_cell [of a b s i k] assms(2,3) by simp
  qed
  then have "filled a b row (Suc i) 1"
    by (intro filledI) (auto dest: filled_dims elim!: filledD)
  then show ?thesis
    by (simp only: row_def)
qed

text \<open>\<open>levenshteinDistance\<close> is the value of the recurrence at the two full lengths.\<close>

lemma levenshteinDistance_recurrence:
  "levenshteinDistance a b = editRecurrence a b (length a) (length b)"
proof -
  define dp2 where "dp2 = fold (\<lambda>j dp. setCell dp 0 j j) [0..<length b + 1]
        (fold (\<lambda>i dp. setCell dp i 0 i) [0..<length a + 1]
           (replicate (length a + 1) (replicate (length b + 1) 0)))"
  define dp3 where "dp3 = fold (\<lambda>i dp. fold (levCell a b i) [1..<length b + 1] dp) [1..<length a + 1] dp2"
  have "filled a b dp3 (length a + 1) 1"
    unfolding dp3_def
  proof (rule fold_upt_invariant [where P = "\<lambda>k dp. filled a b dp k 1"])
    show "1 \<le> length a + 1" by simp
    show "filled a b dp2 1 1" unfolding dp2_def by (rule filled_init)
  next
    fix k s
    assume "1 \<le> k" "k < length a + 1" "filled a b s k 1"
    then show "filled a b (fold (levCell a b k) [1..<length b + 1] s) (Suc k) 1"
      using filled_row [of a b s k] by simp
  qed
  then have "dp3 ! length a ! length b = editRecurrence a b (length a) (length b)"
    by (simp add: filled_def)
  then show ?thesis
    by (simp add: levenshteinDistance_def Let_def dp3_def dp2_def)
qed

text \<open>The distance is zero exactly for equal strings.\<close>

lemma editRecurrence_lower:
  "i \<le> j + editRecurrence a b i j \<and> j \<le> i + editRecurrence a b i j"
  by (induction a b i j rule: editRecurrence.induct) auto

lemma editRecurrence_diag:
  "i \<le> length a \<Longrightarrow> i \<le> length b \<Longrightarrow>
   (editRecurrence a b i i = 0) = (take i a = take i b)"
proof (induction i)
  case 0
  then show ?case by simp
next
  case (Suc i)
  have l: "1 \<le> editRecurrence a b i (Suc i)" "1 \<le> editRecurrence a b (Suc i) i"
    using editRecurrence_lower [of i "Suc i" a b] editRecurrence_lower [of "Suc i" i a b]
    by simp_all
  have "(editRecurrence a b (Suc i) (Suc i) = 0) = (editRecurrence a b i i = 0 \<and> a ! i = b ! i)"
    using l by (auto simp: min_def)
  also have "\<dots> = (take i a = take i b \<and> a ! i = b ! i)"
    using Suc by simp
  also have "\<dots> = (take (Suc i) a = take (Suc i) b)"
    using Suc.prems by (simp add: take_Suc_conv_app_nth)
  finally show ?case .
qed

lemma levenshteinDistance_zero_iff: "(levenshteinDistance a b = 0) = (a = b)"
proof
  assume z: "levenshteinDistance a b = 0"
  then have "length a = length b"
    using editRecurrence_lower [of "length a" "length b" a b]
    by (simp add: levenshteinDistance_recurrence)
  then show "a = b"
    using z editRecurrence_diag [of "length a" a b]
    by (simp add: levenshteinDistance_recurrence)
next
  assume "a = b"
  then show "levenshteinDistance a b = 0"
    using editRecurrence_diag [of "length a" a b]
    by (simp add: levenshteinDistance_recurrence)
qed

section \<open>Edit distance: the least number of edits\<close>

lemma editsTo_insert_all: "editsTo (length ys) [] ys"
  by (induction ys) (auto intro: editsTo.intros)

lemma editsTo_delete_all: "editsTo (length xs) xs []"
  by (induction xs) (auto intro: editsTo.intros)

lemma editDistance_reached: "editsTo (editDistance xs ys) xs ys"
proof (induction xs ys rule: editDistance.induct)
  case (1 ys)
  then show ?case by (simp add: editsTo_insert_all)
next
  case (2 x xs)
  then show ?case using editsTo_delete_all [of "x # xs"] by simp
next
  case (3 x xs y ys)
  have a: "editsTo (editDistance xs (y # ys) + 1) (x # xs) (y # ys)"
    using 3(1) by (auto intro: editsTo.intros)
  have b: "editsTo (editDistance (x # xs) ys + 1) (x # xs) (y # ys)"
    using 3(2) by (auto intro: editsTo.intros)
  have c: "editsTo (editDistance xs ys + (if x = y then 0 else 1)) (x # xs) (y # ys)"
    using 3(3) by (rule keep_or_substitute)
  show ?case
    using a b c unfolding editDistance.simps min_def by presburger
qed

lemma editDistance_Nil2: "editDistance xs [] = length xs"
  by (cases xs) simp_all

lemma editDistance_delete: "editDistance (x # xs) ys \<le> Suc (editDistance xs ys)"
  by (cases ys) (simp_all add: editDistance_Nil2)

lemma editDistance_insert: "editDistance xs (y # ys) \<le> Suc (editDistance xs ys)"
  by (cases xs) simp_all

lemma editDistance_least: "editsTo n xs ys \<Longrightarrow> editDistance xs ys \<le> n"
proof (induction rule: editsTo.induct)
  case done_edits
  then show ?case by simp
next
  case (keep_or_substitute n xs ys x y)
  then show ?case by auto
next
  case (delete_char n xs ys x)
  then show ?case using editDistance_delete [of x xs ys] by simp
next
  case (insert_char n xs ys y)
  then show ?case using editDistance_insert [of xs y ys] by simp
qed

text \<open>Edits can be counted from the end of the strings as well.\<close>

lemma editsTo_snoc:
  "editsTo n xs ys \<Longrightarrow> editsTo (n + (if x = y then 0 else 1)) (xs @ [x]) (ys @ [y])"
proof (induction rule: editsTo.induct)
  case done_edits
  then show ?case using keep_or_substitute [OF editsTo.done_edits, of x y] by simp
next
  case (keep_or_substitute n xs ys x' y')
  then show ?case
    using editsTo.keep_or_substitute [of "n + (if x = y then 0 else 1)" "xs @ [x]" "ys @ [y]" x' y']
    by (simp add: add.commute add.left_commute)
next
  case (delete_char n xs ys x')
  then show ?case
    using editsTo.delete_char [of "n + (if x = y then 0 else 1)" "xs @ [x]" "ys @ [y]" x'] by simp
next
  case (insert_char n xs ys y')
  then show ?case
    using editsTo.insert_char [of "n + (if x = y then 0 else 1)" "xs @ [x]" "ys @ [y]" y'] by simp
qed

lemma editsTo_snoc_delete: "editsTo n xs ys \<Longrightarrow> editsTo (Suc n) (xs @ [x]) ys"
proof (induction rule: editsTo.induct)
  case done_edits
  then show ?case using delete_char [OF editsTo.done_edits, of x] by simp
next
  case (keep_or_substitute n xs ys x' y')
  then show ?case
    using editsTo.keep_or_substitute [of "Suc n" "xs @ [x]" ys x' y'] by simp
next
  case (delete_char n xs ys x')
  then show ?case using editsTo.delete_char [of "Suc n" "xs @ [x]" ys x'] by simp
next
  case (insert_char n xs ys y')
  then show ?case using editsTo.insert_char [of "Suc n" "xs @ [x]" ys y'] by simp
qed

lemma editsTo_snoc_insert: "editsTo n xs ys \<Longrightarrow> editsTo (Suc n) xs (ys @ [y])"
proof (induction rule: editsTo.induct)
  case done_edits
  then show ?case using insert_char [OF editsTo.done_edits, of y] by simp
next
  case (keep_or_substitute n xs ys x' y')
  then show ?case
    using editsTo.keep_or_substitute [of "Suc n" xs "ys @ [y]" x' y'] by simp
next
  case (delete_char n xs ys x')
  then show ?case using editsTo.delete_char [of "Suc n" xs "ys @ [y]" x'] by simp
next
  case (insert_char n xs ys y')
  then show ?case using editsTo.insert_char [of "Suc n" xs "ys @ [y]" y'] by simp
qed

lemma editsTo_rev: "editsTo n xs ys \<Longrightarrow> editsTo n (rev xs) (rev ys)"
proof (induction rule: editsTo.induct)
  case done_edits
  then show ?case by (simp add: editsTo.done_edits)
next
  case (keep_or_substitute n xs ys x y)
  then show ?case using editsTo_snoc [of n "rev xs" "rev ys" x y] by simp
next
  case (delete_char n xs ys x)
  then show ?case using editsTo_snoc_delete [of n "rev xs" "rev ys" x] by simp
next
  case (insert_char n xs ys y)
  then show ?case using editsTo_snoc_insert [of n "rev xs" "rev ys" y] by simp
qed

lemma editDistance_rev: "editDistance (rev xs) (rev ys) = editDistance xs ys"
proof (rule antisym)
  show "editDistance (rev xs) (rev ys) \<le> editDistance xs ys"
    using editDistance_least [OF editsTo_rev [OF editDistance_reached [of xs ys]]] .
  show "editDistance xs ys \<le> editDistance (rev xs) (rev ys)"
    using editDistance_least [OF editsTo_rev [OF editDistance_reached [of "rev xs" "rev ys"]]]
    by simp
qed

lemma editRecurrence_prefixes:
  "i \<le> length a \<Longrightarrow> j \<le> length b \<Longrightarrow>
   editRecurrence a b i j = editDistance (rev (take i a)) (rev (take j b))"
proof (induction a b i j rule: editRecurrence.induct)
  case (1 a b j)
  then show ?case by simp
next
  case (2 a b i)
  then show ?case by (simp add: editDistance_Nil2)
next
  case (3 a b i j)
  then show ?case
    by (simp add: take_Suc_conv_app_nth)
qed

text \<open>
  \<open>levenshteinDistance a b\<close> is the textbook edit distance of \<open>a\<close> and \<open>b\<close>: \<open>b\<close> can be
  made from \<open>a\<close> with that many edits, and with no fewer.
\<close>

lemma levenshteinDistance_editDistance: "levenshteinDistance a b = editDistance a b"
  using editRecurrence_prefixes [of "length a" a "length b" b]
  by (simp add: levenshteinDistance_recurrence editDistance_rev)

lemma levenshteinDistance_least_edits:
  "editsTo (levenshteinDistance a b) a b \<and> (\<forall>n. editsTo n a b \<longrightarrow> levenshteinDistance a b \<le> n)"
  by (simp add: levenshteinDistance_editDistance editDistance_reached editDistance_least)

end
